theory Spec2Isabelle
  imports Complex_Main
begin

section \<open>Python values and strings\<close>

text \<open>
  A Python \<open>str\<close> is a sequence of Unicode code points, so a string is a list of
  natural numbers. \<open>str\<close> embeds an ASCII literal.
\<close>

type_synonym ustr = "nat list"

definition str :: "string \<Rightarrow> ustr" where
  "str s = map of_char s"

text \<open>
  The values that \<open>json.loads\<close> yields: null, booleans, integers, floating-point
  numbers, strings, arrays and objects. A float is a real number, an infinity or NaN
  (\<open>json.loads\<close> accepts \<open>Infinity\<close> and \<open>NaN\<close>); the code only tests floats for
  truth and compares them with integer literals, which the real value decides. An
  object is the list of its items in insertion order; its keys are strings.
\<close>

datatype pyfloat = Finite real | PosInf | NegInf | NaN

datatype pyval =
  PNone | PBool bool | PInt int | PFloat pyfloat | PStr ustr | PList "pyval list"
  | PDict "(ustr \<times> pyval) list"

text \<open>The exceptions that the code or the library functions it calls raise.\<close>

datatype pyerr =
  IndexError | TypeError | KeyError | ValueError | RecursionError | JSONDecodeError

text \<open>Truthiness, as \<open>not x\<close>, \<open>x or y\<close> and \<open>if x\<close> test it.\<close>

fun truthy :: "pyval \<Rightarrow> bool" where
  "truthy PNone = False"
| "truthy (PBool b) = b"
| "truthy (PInt n) = (n \<noteq> 0)"
| "truthy (PFloat f) = (f \<noteq> Finite 0)"
| "truthy (PStr s) = (s \<noteq> [])"
| "truthy (PList xs) = (xs \<noteq> [])"
| "truthy (PDict kvs) = (kvs \<noteq> [])"

text \<open>
  \<open>x[i]\<close> for a non-negative literal index \<open>i\<close>. An object has string keys only, so
  an integer key is missing.
\<close>

fun py_index :: "pyval \<Rightarrow> nat \<Rightarrow> pyerr + pyval" where
  "py_index (PList xs) i = (if i < length xs then Inr (xs ! i) else Inl IndexError)"
| "py_index (PStr s) i = (if i < length s then Inr (PStr [s ! i]) else Inl IndexError)"
| "py_index PNone i = Inl TypeError"
| "py_index (PBool b) i = Inl TypeError"
| "py_index (PInt n) i = Inl TypeError"
| "py_index (PFloat f) i = Inl TypeError"
| "py_index (PDict kvs) i = Inl KeyError"

text \<open>The elements a \<open>for\<close> loop or a comprehension visits (the keys of an object).\<close>

fun py_iter :: "pyval \<Rightarrow> pyerr + pyval list" where
  "py_iter (PList xs) = Inr xs"
| "py_iter (PStr s) = Inr (map (\<lambda>c. PStr [c]) s)"
| "py_iter PNone = Inl TypeError"
| "py_iter (PBool b) = Inl TypeError"
| "py_iter (PInt n) = Inl TypeError"
| "py_iter (PFloat f) = Inl TypeError"
| "py_iter (PDict kvs) = Inr (map (\<lambda>kv. PStr (fst kv)) kvs)"

text \<open>\<open>x == n\<close> for an integer literal \<open>n\<close>: \<open>True == 1\<close> and \<open>False == 0\<close> hold in Python.\<close>

fun eq_int :: "pyval \<Rightarrow> int \<Rightarrow> bool" where
  "eq_int (PInt m) n = (m = n)"
| "eq_int (PBool b) n = ((if b then 1 else 0) = n)"
| "eq_int PNone n = False"
| "eq_int (PStr s) n = False"
| "eq_int (PList xs) n = False"
| "eq_int (PFloat f) n = (f = Finite (of_int n))"
| "eq_int (PDict kvs) n = False"

text \<open>\<open>x > n\<close> for an integer literal \<open>n\<close>; only numbers are ordered against it.\<close>

fun gt_int :: "pyval \<Rightarrow> int \<Rightarrow> pyerr + bool" where
  "gt_int (PInt m) n = Inr (m > n)"
| "gt_int (PBool b) n = Inr ((if b then 1 else 0) > n)"
| "gt_int PNone n = Inl TypeError"
| "gt_int (PStr s) n = Inl TypeError"
| "gt_int (PList xs) n = Inl TypeError"
| "gt_int (PFloat f) n =
     Inr (case f of Finite x \<Rightarrow> x > of_int n | PosInf \<Rightarrow> True | NegInf \<Rightarrow> False
          | NaN \<Rightarrow> False)"
| "gt_int (PDict kvs) n = Inl TypeError"

section \<open>Text normalization (\<open>normalize_text\<close>)\<close>

text \<open>
  \<open>unicodedata.normalize('NFKD', text)\<close> belongs to Python's standard library and reads
  the Unicode character database; the model takes it as the parameter \<open>nfkd\<close>.
\<close>

definition encode_ascii_ignore :: "ustr \<Rightarrow> ustr" where
  "encode_ascii_ignore s = filter (\<lambda>c. c < 128) s"

text \<open>\<open>text.replace(a, b)\<close> for one-character strings \<open>a\<close> and \<open>b\<close>.\<close>

definition replace_char :: "nat \<Rightarrow> nat \<Rightarrow> ustr \<Rightarrow> ustr" where
  "replace_char a b s = map (\<lambda>c. if c = a then b else c) s"

text \<open>The characters that \<open>\s\<close> matches in a \<open>str\<close> pattern and that \<open>strip()\<close> removes.\<close>

definition is_space :: "nat \<Rightarrow> bool" where
  "is_space c \<longleftrightarrow>
     (9 \<le> c \<and> c \<le> 13) \<or> (28 \<le> c \<and> c \<le> 32) \<or> c = 133 \<or> c = 160 \<or> c = 5760 \<or>
     (8192 \<le> c \<and> c \<le> 8202) \<or> c = 8232 \<or> c = 8233 \<or> c = 8239 \<or> c = 8287 \<or> c = 12288"

text \<open>\<open>re.sub(r'\s+', ' ', text)\<close>: every maximal run of whitespace becomes one space.\<close>

function collapse_ws :: "ustr \<Rightarrow> ustr" where
  "collapse_ws [] = []"
| "collapse_ws (c # cs) =
     (if is_space c then 32 # collapse_ws (dropWhile is_space cs) else c # collapse_ws cs)"
  by pat_completeness auto
termination
  by (relation "measure length") (auto simp: length_dropWhile_le less_Suc_eq_le)

definition strip :: "ustr \<Rightarrow> ustr" where
  "strip s = rev (dropWhile is_space (rev (dropWhile is_space s)))"

text \<open>\<open>lower()\<close>; the text is ASCII when it is applied (see \<open>normalize_text_ascii\<close>).\<close>

definition lower :: "ustr \<Rightarrow> ustr" where
  "lower s = map (\<lambda>c. if 65 \<le> c \<and> c \<le> 90 then c + 32 else c) s"

definition normalize_text :: "(ustr \<Rightarrow> ustr) \<Rightarrow> ustr \<Rightarrow> ustr" where
  "normalize_text nfkd text =
     (let text = encode_ascii_ignore (nfkd text);
          text = replace_char 39 39 (replace_char 96 39 (replace_char 8217 39 text));
          text = collapse_ws text
      in lower (strip text))"

text \<open>
  For evaluation at concrete strings: the canonical decompositions of some accented
  Latin-1 letters, taken from the Unicode character database (base letter followed by
  the combining mark). On every other code point used below (ASCII, U+2018, U+2019)
  NFKD is the identity, as here.
\<close>

definition decomp :: "nat \<Rightarrow> ustr" where
  "decomp c =
     (if c = 192 then [65, 768] else if c = 193 then [65, 769]
      else if c = 199 then [67, 807] else if c = 200 then [69, 768]
      else if c = 201 then [69, 769] else if c = 209 then [78, 771]
      else if c = 224 then [97, 768] else if c = 225 then [97, 769]
      else if c = 231 then [99, 807] else if c = 232 then [101, 768]
      else if c = 233 then [101, 769] else if c = 241 then [110, 771]
      else [c])"

definition nfkd_latin :: "ustr \<Rightarrow> ustr" where
  "nfkd_latin s = concat (map decomp s)"

section \<open>Printed messages\<close>

text \<open>
  What the code prints, as events: the JSON decoding error of
  \<open>extract_script_variables\<close>, the fetch error of \<open>get_fb_public_load_data\<close> (with the
  status code), the error of \<open>parse_form_entries\<close> and the warning of \<open>parse_entry\<close>
  (with the entry it prints).
\<close>

datatype msg = ErrorDecodingJSON | CantGetFormData int | CantGetFormEntries | NotIterable pyval

section \<open>Schema Normalizer (\<open>parse_form_entries\<close>)\<close>

text \<open>
  A field descriptor is a dict with the keys \<open>id\<close>, \<open>container_name\<close>, \<open>type\<close> and
  \<open>required\<close>; the keys \<open>name\<close>, \<open>options\<close> and \<open>default_value\<close> are present in some
  descriptors only (\<open>None\<close> is the absent key, \<open>Some PNone\<close> the key holding Python's
  \<open>None\<close>).
\<close>

record entry =
  id_e :: pyval
  container_name :: pyval
  type_e :: pyval
  required :: bool
  name_e :: "pyval option"
  options :: "pyval option"
  default_value :: "pyval option"

definition FORM_SESSION_TYPE_ID :: int where
  "FORM_SESSION_TYPE_ID = 8"

definition ANY_TEXT_FIELD :: ustr where
  "ANY_TEXT_FIELD = str ''ANY TEXT!!''"

text \<open>\<open>sep.join(xs)\<close> on strings, and on a Python value (every item must be a \<open>str\<close>).\<close>

fun join :: "ustr \<Rightarrow> ustr list \<Rightarrow> ustr" where
  "join sep [] = []"
| "join sep [x] = x"
| "join sep (x # y # ys) = x @ sep @ join sep (y # ys)"

fun as_strs :: "pyval list \<Rightarrow> pyerr + ustr list" where
  "as_strs [] = Inr []"
| "as_strs (PStr s # xs) = (case as_strs xs of Inl e \<Rightarrow> Inl e | Inr ss \<Rightarrow> Inr (s # ss))"
| "as_strs (x # xs) = Inl TypeError"

definition py_join :: "ustr \<Rightarrow> pyval \<Rightarrow> pyerr + ustr" where
  "py_join sep v =
     (case py_iter v of Inl e \<Rightarrow> Inl e
      | Inr xs \<Rightarrow> (case as_strs xs of Inl e \<Rightarrow> Inl e | Inr ss \<Rightarrow> Inr (join sep ss)))"

text \<open>\<open>len(x)\<close>.\<close>

fun py_len :: "pyval \<Rightarrow> pyerr + nat" where
  "py_len (PList xs) = Inr (length xs)"
| "py_len (PStr s) = Inr (length s)"
| "py_len PNone = Inl TypeError"
| "py_len (PBool b) = Inl TypeError"
| "py_len (PInt n) = Inl TypeError"
| "py_len (PFloat f) = Inl TypeError"
| "py_len (PDict kvs) = Inr (length kvs)"

text \<open>\<open>[(x[0] or ANY_TEXT_FIELD) for x in xs]\<close>.\<close>

fun option_labels :: "pyval list \<Rightarrow> pyerr + pyval list" where
  "option_labels [] = Inr []"
| "option_labels (x # xs) =
     (case py_index x 0 of Inl e \<Rightarrow> Inl e
      | Inr l \<Rightarrow>
          (case option_labels xs of Inl e \<Rightarrow> Inl e
           | Inr ls \<Rightarrow> Inr ((if truthy l then l else PStr ANY_TEXT_FIELD) # ls)))"

text \<open>The dict \<open>info\<close> built for one sub-entry, its items evaluated in the source's order.\<close>

definition sub_entry_info :: "pyval \<Rightarrow> pyval \<Rightarrow> pyval \<Rightarrow> pyerr + entry" where
  "sub_entry_info entry_name entry_type_id sub_entry =
     (case py_index sub_entry 0 of Inl e \<Rightarrow> Inl e | Inr i \<Rightarrow>
      (case py_index sub_entry 2 of Inl e \<Rightarrow> Inl e | Inr r \<Rightarrow>
       (case py_len sub_entry of Inl e \<Rightarrow> Inl e | Inr n \<Rightarrow>
        (case (if n > 3
               then (case py_index sub_entry 3 of Inl e \<Rightarrow> Inl e
                     | Inr s3 \<Rightarrow> if truthy s3
                         then (case py_join (str '' - '') s3 of Inl e \<Rightarrow> Inl e
                               | Inr j \<Rightarrow> Inr (PStr j))
                         else Inr PNone)
               else Inr PNone) of Inl e \<Rightarrow> Inl e | Inr nm \<Rightarrow>
         (case py_index sub_entry 1 of Inl e \<Rightarrow> Inl e | Inr s1 \<Rightarrow>
          (case (if truthy s1
                 then (case py_iter s1 of Inl e \<Rightarrow> Inl e
                       | Inr xs \<Rightarrow> (case option_labels xs of Inl e \<Rightarrow> Inl e
                                    | Inr ls \<Rightarrow> Inr (PList ls)))
                 else Inr PNone) of Inl e \<Rightarrow> Inl e | Inr os \<Rightarrow>
           Inr \<lparr>id_e = i, container_name = entry_name, type_e = entry_type_id,
                required = eq_int r 1, name_e = Some nm, options = Some os,
                default_value = None\<rparr>))))))"

text \<open>The loop over \<open>entry[4]\<close>, with \<open>result\<close> as accumulator.\<close>

fun parse_sub_entries ::
  "bool \<Rightarrow> pyval \<Rightarrow> pyval \<Rightarrow> pyval list \<Rightarrow> entry list \<Rightarrow> pyerr + entry list" where
  "parse_sub_entries only_required entry_name entry_type_id [] result = Inr result"
| "parse_sub_entries only_required entry_name entry_type_id (sub_entry # rest) result =
     (case sub_entry_info entry_name entry_type_id sub_entry of Inl e \<Rightarrow> Inl e
      | Inr info \<Rightarrow>
          if only_required \<and> \<not> required info
          then parse_sub_entries only_required entry_name entry_type_id rest result
          else parse_sub_entries only_required entry_name entry_type_id rest (result @ [info]))"

text \<open>\<open>parse_entry\<close> returns what it printed and its result list, or raises.\<close>

definition parse_entry :: "bool \<Rightarrow> pyval \<Rightarrow> pyerr + msg list \<times> entry list" where
  "parse_entry only_required entry =
     (case py_index entry 1 of Inl e \<Rightarrow> Inl e | Inr entry_name \<Rightarrow>
      (case py_index entry 3 of Inl e \<Rightarrow> Inl e | Inr entry_type_id \<Rightarrow>
       (case py_index entry 4 of Inl e \<Rightarrow> Inl e | Inr e4 \<Rightarrow>
        (case e4 of
           PList subs \<Rightarrow>
             (case parse_sub_entries only_required entry_name entry_type_id subs [] of
                Inl e \<Rightarrow> Inl e | Inr result \<Rightarrow> Inr ([], result))
         | _ \<Rightarrow> Inr ([NotIterable entry], [])))))"

text \<open>
  The loop over \<open>v[1][1]\<close>: the state is what has been printed, \<open>page_count\<close> and
  \<open>parsed_entries\<close>. An exception leaves what was printed and ends the loop.
\<close>

fun parse_entries ::
  "bool \<Rightarrow> pyval list \<Rightarrow> msg list \<Rightarrow> nat \<Rightarrow> entry list \<Rightarrow>
   msg list \<times> (pyerr + nat \<times> entry list)" where
  "parse_entries only_required [] out page_count parsed_entries =
     (out, Inr (page_count, parsed_entries))"
| "parse_entries only_required (entry # rest) out page_count parsed_entries =
     (case py_index entry 3 of Inl e \<Rightarrow> (out, Inl e)
      | Inr t \<Rightarrow>
          if eq_int t FORM_SESSION_TYPE_ID
          then parse_entries only_required rest out (page_count + 1) parsed_entries
          else (case parse_entry only_required entry of Inl e \<Rightarrow> (out, Inl e)
                | Inr (w, fs) \<Rightarrow>
                    parse_entries only_required rest (out @ w) page_count (parsed_entries @ fs)))"

text \<open>\<open>str(n)\<close> for a natural number, and \<open>','.join(map(str, range(n)))\<close>.\<close>

fun str_nat :: "nat \<Rightarrow> ustr" where
  "str_nat n = (if n < 10 then [48 + n] else str_nat (n div 10) @ [48 + n mod 10])"

declare str_nat.simps [simp del]

definition email_entry :: entry where
  "email_entry =
     \<lparr>id_e = PStr (str ''emailAddress''), container_name = PStr (str ''Email Address''),
      type_e = PStr (str ''required''), required = True, name_e = None,
      options = Some (PStr (str ''email address'')), default_value = None\<rparr>"

definition page_history_entry :: "nat \<Rightarrow> entry" where
  "page_history_entry page_count =
     \<lparr>id_e = PStr (str ''pageHistory''), container_name = PStr (str ''Page History''),
      type_e = PStr (str ''required''), required = False, name_e = None,
      options = Some (PStr (str ''from 0 to (number of page - 1)'')),
      default_value = Some (PStr (join (str '','') (map str_nat [0..<page_count + 1])))\<rparr>"

text \<open>
  \<open>parse_form_entries\<close> from the value \<open>v\<close> that \<open>get_fb_public_load_data\<close> returned
  (\<open>PNone\<close> when the fetch or the extraction failed). The result is what was printed
  and either the exception raised or the value returned (\<open>None\<close> is Python's \<open>None\<close>).
\<close>

definition parse_form_entries ::
  "pyval \<Rightarrow> bool \<Rightarrow> msg list \<times> (pyerr + entry list option)" where
  "parse_form_entries v only_required =
     (if \<not> truthy v then ([CantGetFormEntries], Inr None)
      else (case py_index v 1 of Inl e \<Rightarrow> ([], Inl e) | Inr v1 \<Rightarrow>
        if \<not> truthy v1 then ([CantGetFormEntries], Inr None)
        else (case py_index v1 1 of Inl e \<Rightarrow> ([], Inl e) | Inr v11 \<Rightarrow>
          if \<not> truthy v11 then ([CantGetFormEntries], Inr None)
          else (case py_iter v11 of Inl e \<Rightarrow> ([], Inl e) | Inr entries \<Rightarrow>
            (case parse_entries only_required entries [] 0 [] of
               (out, Inl e) \<Rightarrow> (out, Inl e)
             | (out, Inr (page_count, parsed_entries)) \<Rightarrow>
                 (case py_index v1 10 of Inl e \<Rightarrow> (out, Inl e) | Inr v110 \<Rightarrow>
                  (case py_index v110 6 of Inl e \<Rightarrow> (out, Inl e) | Inr mode \<Rightarrow>
                   (case gt_int mode 1 of Inl e \<Rightarrow> (out, Inl e) | Inr collect \<Rightarrow>
                      (out, Inr (Some (parsed_entries
                          @ (if collect then [email_entry] else [])
                          @ (if page_count > 0 then [page_history_entry page_count]
                             else []))))))))))))"

section \<open>Schema Extractor (\<open>extract_script_variables\<close>)\<close>

text \<open>
  The pattern is \<open>var\s\<close>, the escaped name, \<open>\s*=\s*(\[.*?\]);\<close>, compiled with
  \<open>DOTALL\<close>. \<open>strip_prefix\<close> matches a literal; \<open>until_close\<close> is the lazy \<open>.*?\<close>
  followed by \<open>];\<close>: the text before the first \<open>];\<close>. \<open>match_here\<close> matches the
  pattern at the start of the text and yields group 1; \<open>search\<close> tries every start
  position from the left, as \<open>pattern.search\<close> does.
\<close>

fun strip_prefix :: "ustr \<Rightarrow> ustr \<Rightarrow> ustr option" where
  "strip_prefix [] s = Some s"
| "strip_prefix (p # ps) [] = None"
| "strip_prefix (p # ps) (c # cs) = (if p = c then strip_prefix ps cs else None)"

fun until_close :: "ustr \<Rightarrow> ustr option" where
  "until_close [] = None"
| "until_close [c] = None"
| "until_close (c # d # cs) =
     (if c = 93 \<and> d = 59 then Some [] else map_option ((#) c) (until_close (d # cs)))"

definition match_here :: "ustr \<Rightarrow> ustr \<Rightarrow> ustr option" where
  "match_here name s =
     (case strip_prefix (str ''var'') s of None \<Rightarrow> None
      | Some s1 \<Rightarrow>
         (case s1 of [] \<Rightarrow> None
          | c # s2 \<Rightarrow>
             if \<not> is_space c then None
             else (case strip_prefix name s2 of None \<Rightarrow> None
                   | Some s3 \<Rightarrow>
                      (case strip_prefix (str ''='') (dropWhile is_space s3) of None \<Rightarrow> None
                       | Some s4 \<Rightarrow>
                          (case strip_prefix (str ''['') (dropWhile is_space s4) of None \<Rightarrow> None
                           | Some s5 \<Rightarrow>
                              (case until_close s5 of None \<Rightarrow> None
                               | Some inner \<Rightarrow> Some (str ''['' @ inner @ str '']'')))))))"

fun search :: "ustr \<Rightarrow> ustr \<Rightarrow> ustr option" where
  "search name [] = match_here name []"
| "search name (c # cs) =
     (case match_here name (c # cs) of Some g \<Rightarrow> Some g | None \<Rightarrow> search name cs)"

text \<open>
  \<open>json.loads\<close> belongs to the standard library; the model takes it as the parameter
  \<open>json_loads\<close>, which decodes a text or raises: \<open>JSONDecodeError\<close> for a text that is
  not JSON, but also \<open>ValueError\<close> (an integer of more than 4300 digits) or
  \<open>RecursionError\<close> (deep nesting). The \<open>except\<close> clause catches \<open>JSONDecodeError\<close>
  only. The function returns what it printed and either the exception raised or its
  value (\<open>PNone\<close> is Python's \<open>None\<close>).
\<close>

definition extract_script_variables ::
  "(ustr \<Rightarrow> pyerr + pyval) \<Rightarrow> ustr \<Rightarrow> ustr \<Rightarrow> msg list \<times> (pyerr + pyval)" where
  "extract_script_variables json_loads name html =
     (case search name html of None \<Rightarrow> ([], Inr PNone)
      | Some value_str \<Rightarrow>
         (case json_loads value_str of Inr v \<Rightarrow> ([], Inr v)
          | Inl e \<Rightarrow>
              if e = JSONDecodeError then ([ErrorDecodingJSON], Inr PNone)
              else ([], Inl e)))"

definition ALL_DATA_FIELDS :: ustr where
  "ALL_DATA_FIELDS = str ''FB_PUBLIC_LOAD_DATA_''"

text \<open>The HTTP response of \<open>requests.get\<close> is an input of the model.\<close>

record response =
  status_code :: int
  response_text :: ustr

definition get_fb_public_load_data ::
  "(ustr \<Rightarrow> pyerr + pyval) \<Rightarrow> response \<Rightarrow> msg list \<times> (pyerr + pyval)" where
  "get_fb_public_load_data json_loads resp =
     (if status_code resp \<noteq> 200
      then ([CantGetFormData (status_code resp)], Inr PNone)
      else extract_script_variables json_loads ALL_DATA_FIELDS (response_text resp))"

section \<open>Answer Resolver (\<open>fill_form_entries\<close>)\<close>

text \<open>
  The fill strategy is called with the type, the id, the options, the required flag and
  the container name; it returns a candidate or raises. It is modelled as a function of
  its arguments: asked the same question again, it gives the same answer. The f-string
  formatting of a value (Python's \<open>format\<close>) is the parameter \<open>fmt\<close>. The
  debugging line that \<open>fill_form_entries\<close> prints is not modelled.
\<close>

type_synonym fill_algorithm =
  "pyval \<Rightarrow> pyval \<Rightarrow> pyval \<Rightarrow> bool \<Rightarrow> pyval \<Rightarrow> pyerr + pyval"

text \<open>\<open>normalize_text\<close> on a Python value: \<open>unicodedata.normalize\<close> accepts a \<open>str\<close> only.\<close>

fun normalize_val :: "(ustr \<Rightarrow> ustr) \<Rightarrow> pyval \<Rightarrow> pyerr + ustr" where
  "normalize_val nfkd (PStr s) = Inr (normalize_text nfkd s)"
| "normalize_val nfkd v = Inl TypeError"

fun normalize_all :: "(ustr \<Rightarrow> ustr) \<Rightarrow> pyval list \<Rightarrow> pyerr + ustr list" where
  "normalize_all nfkd [] = Inr []"
| "normalize_all nfkd (opt # opts) =
     (case normalize_val nfkd opt of Inl e \<Rightarrow> Inl e
      | Inr n \<Rightarrow> (case normalize_all nfkd opts of Inl e \<Rightarrow> Inl e | Inr ns \<Rightarrow> Inr (n # ns)))"

text \<open>\<open>xs.index(x)\<close>, called only when \<open>x in xs\<close>.\<close>

fun index_of :: "'a \<Rightarrow> 'a list \<Rightarrow> nat" where
  "index_of x [] = 0"
| "index_of x (y # ys) = (if x = y then 0 else Suc (index_of x ys))"

text \<open>
  \<open>(x or [])[::]\<close>: a copy of a list or of a string; a number cannot be sliced, and
  slicing a non-empty object raises too (\<open>TypeError\<close> in Python 3.11).
\<close>

definition or_empty_copy :: "pyval \<Rightarrow> pyerr + pyval" where
  "or_empty_copy x =
     (if \<not> truthy x then Inr (PList [])
      else (case x of PList xs \<Rightarrow> Inr (PList xs) | PStr s \<Rightarrow> Inr (PStr s)
            | _ \<Rightarrow> Inl TypeError))"

definition has_default :: "entry \<Rightarrow> bool" where
  "has_default entry = (case default_value entry of None \<Rightarrow> False | Some d \<Rightarrow> truthy d)"

definition other_option_entry :: "(pyval \<Rightarrow> ustr) \<Rightarrow> entry \<Rightarrow> pyval \<Rightarrow> entry" where
  "other_option_entry fmt entry selected_value =
     \<lparr>id_e = PStr (fmt (id_e entry) @ str ''.other_option_response''),
      container_name = PStr (fmt (container_name entry) @ str '' (Other)''),
      type_e = PStr (str ''text''), required = required entry, name_e = None,
      options = None, default_value = Some selected_value\<rparr>"

text \<open>
  One iteration of the loop on \<open>entry\<close>: the entry as the iteration leaves it and the
  entries it appended to the list, or the exception raised.
\<close>

definition fill_entry ::
  "(ustr \<Rightarrow> ustr) \<Rightarrow> (pyval \<Rightarrow> ustr) \<Rightarrow> fill_algorithm \<Rightarrow> entry \<Rightarrow>
   pyerr + entry \<times> entry list" where
  "fill_entry nfkd fmt fill_algorithm entry =
     (if has_default entry then Inr (entry, [])
      else (case options entry of None \<Rightarrow> Inl KeyError | Some ov \<Rightarrow>
       (case or_empty_copy ov of Inl e \<Rightarrow> Inl e | Inr opts \<Rightarrow>
        (case fill_algorithm (type_e entry) (id_e entry) opts (required entry)
                (container_name entry) of Inl e \<Rightarrow> Inl e | Inr selected_value \<Rightarrow>
         (case py_iter opts of Inl e \<Rightarrow> Inl e | Inr opt_list \<Rightarrow>
          (case normalize_all nfkd opt_list of Inl e \<Rightarrow> Inl e | Inr normalized_options \<Rightarrow>
           (case normalize_val nfkd selected_value of Inl e \<Rightarrow> Inl e
            | Inr normalized_selected_value \<Rightarrow>
               if truthy selected_value \<and> truthy opts \<and>
                  normalized_selected_value \<in> set normalized_options
               then Inr (entry\<lparr>default_value :=
                           Some (opt_list ! index_of normalized_selected_value
                                   normalized_options)\<rparr>, [])
               else if truthy selected_value \<and> truthy opts
               then Inr (entry\<lparr>default_value := Some (PStr (str ''__other_option__''))\<rparr>,
                         [other_option_entry fmt entry selected_value])
               else Inr (entry\<lparr>default_value := Some selected_value\<rparr>, []))))))))"

text \<open>
  An iteration on an entry with a default appends nothing; any iteration appends at most
  one entry, and that entry has a default. The loop's termination rests on this.
\<close>

lemma fill_entry_appended:
  assumes "fill_entry nfkd fmt fill_algorithm entry = Inr (entry', app)"
  shows "(has_default entry \<longrightarrow> app = []) \<and> length app \<le> 1 \<and>
         (\<forall>a \<in> set app. has_default a)"
  using assms
  by (auto simp: fill_entry_def has_default_def other_option_entry_def
      split: if_splits option.splits sum.splits)

text \<open>
  The \<open>for\<close> loop reads the list by position and sees what is appended to it while it
  runs. \<open>fill_loop\<close> is the loop from position \<open>i\<close>; an exception ends it. The
  measure counts twice the entries without a default from \<open>i\<close> on, plus the entries
  from \<open>i\<close> on.
\<close>

function fill_loop ::
  "(ustr \<Rightarrow> ustr) \<Rightarrow> (pyval \<Rightarrow> ustr) \<Rightarrow> fill_algorithm \<Rightarrow> entry list \<Rightarrow> nat \<Rightarrow>
   pyerr + entry list" where
  "fill_loop nfkd fmt fill_algorithm entries i =
     (if i < length entries
      then (case fill_entry nfkd fmt fill_algorithm (entries ! i) of Inl e \<Rightarrow> Inl e
            | Inr (entry', app) \<Rightarrow>
                fill_loop nfkd fmt fill_algorithm (entries[i := entry'] @ app) (Suc i))
      else Inr entries)"
  by pat_completeness auto
termination
proof (relation "measure (\<lambda>(nfkd, fmt, fill_algorithm, entries, i).
    2 * length (filter (\<lambda>e. \<not> has_default e) (drop i entries)) + (length entries - i))",
    goal_cases)
  case 1
  show ?case by simp
next
  case (2 nfkd fmt fill_algorithm entries i r entry' app)
  from 2 have fe: "fill_entry nfkd fmt fill_algorithm (entries ! i) = Inr (entry', app)"
    by simp
  note ap = fill_entry_appended [OF fe]
  have dr: "drop i entries = entries ! i # drop (Suc i) entries"
    using 2(1) by (simp add: Cons_nth_drop_Suc)
  have dr': "drop (Suc i) (entries[i := entry'] @ app) = drop (Suc i) entries @ app"
    using 2(1) by simp
  have nd: "filter (\<lambda>e. \<not> has_default e) app = []"
    using ap by (auto simp: filter_empty_conv)
  show ?case
  proof (cases "has_default (entries ! i)")
    case True
    with ap have "app = []" by simp
    with True 2(1) show ?thesis by (simp add: dr)
  next
    case False
    have "length app \<le> 1" using ap by simp
    with False 2(1) show ?thesis by (simp add: dr dr' nd)
  qed
qed

declare fill_loop.simps [simp del]

definition fill_form_entries ::
  "(ustr \<Rightarrow> ustr) \<Rightarrow> (pyval \<Rightarrow> ustr) \<Rightarrow> fill_algorithm \<Rightarrow> entry list \<Rightarrow>
   pyerr + entry list" where
  "fill_form_entries nfkd fmt fill_algorithm entries =
     fill_loop nfkd fmt fill_algorithm entries 0"

text \<open>
  The resolver as the design notes word it: every original descriptor is processed
  first, and the synthesized descriptors are appended in a second pass.
  \<open>fill_two_pass\<close> yields the processed originals and the descriptors to append.
\<close>

fun fill_two_pass ::
  "(ustr \<Rightarrow> ustr) \<Rightarrow> (pyval \<Rightarrow> ustr) \<Rightarrow> fill_algorithm \<Rightarrow> entry list \<Rightarrow>
   pyerr + entry list \<times> entry list" where
  "fill_two_pass nfkd fmt fa [] = Inr ([], [])"
| "fill_two_pass nfkd fmt fa (e # es) =
     (case fill_entry nfkd fmt fa e of Inl x \<Rightarrow> Inl x
      | Inr (e', a) \<Rightarrow>
          (case fill_two_pass nfkd fmt fa es of Inl x \<Rightarrow> Inl x
           | Inr (es', as) \<Rightarrow> Inr (e' # es', a @ as)))"

text \<open>
  For evaluation at concrete descriptors: Python's formatting of \<open>None\<close>, booleans,
  integers and strings. It is used at such values only (a float, a list and an object
  are formatted by their \<open>repr\<close>, which is not modelled; the empty text stands in for
  it).
\<close>

definition str_int :: "int \<Rightarrow> ustr" where
  "str_int n = (if n < 0 then str ''-'' @ str_nat (nat (- n)) else str_nat (nat n))"

fun format_scalar :: "pyval \<Rightarrow> ustr" where
  "format_scalar PNone = str ''None''"
| "format_scalar (PBool b) = (if b then str ''True'' else str ''False'')"
| "format_scalar (PInt n) = str_int n"
| "format_scalar (PStr s) = s"
| "format_scalar (PFloat f) = []"
| "format_scalar (PList xs) = []"
| "format_scalar (PDict kvs) = []"

section \<open>Example descriptors and strategies\<close>

text \<open>
  A strategy that answers \<open>c\<close> whatever it is asked, a choice question with the given
  options and a free-text question with the given \<open>default_value\<close> key.
\<close>

definition answer :: "pyval \<Rightarrow> fill_algorithm" where
  "answer c = (\<lambda>type_id entry_id opts req entry_name. Inr c)"

definition choice_entry :: "pyval list \<Rightarrow> entry" where
  "choice_entry opts =
     \<lparr>id_e = PInt 7, container_name = PStr (str ''Pick''), type_e = PInt 2,
      required = True, name_e = Some PNone, options = Some (PList opts),
      default_value = None\<rparr>"

definition text_entry :: "pyval option \<Rightarrow> entry" where
  "text_entry d =
     \<lparr>id_e = PInt 9, container_name = PStr (str ''Note''), type_e = PInt 0,
      required = False, name_e = Some PNone, options = Some PNone,
      default_value = d\<rparr>"

section \<open>Notions for the properties of the normalizer\<close>

text \<open>
  An entry of the question array is a page break when \<open>entry[3] == FORM_SESSION_TYPE_ID\<close>
  (the loop's test). \<open>question_entries\<close> are the items of \<open>v[1][1]\<close>, \<open>page_breaks\<close>
  counts the page breaks among them, \<open>email_mode\<close> is \<open>v[1][10][6]\<close>. The pseudo-fields
  are the descriptors with the ids \<open>pageHistory\<close> and \<open>emailAddress\<close> that have no
  \<open>name\<close> key (a descriptor built from a question always has one).
  \<open>with_questions\<close> is a dump with the given question array at \<open>v[1][1]\<close>.
\<close>

definition is_page_break :: "pyval \<Rightarrow> bool" where
  "is_page_break entry =
     (case py_index entry 3 of Inl e \<Rightarrow> False | Inr t \<Rightarrow> eq_int t FORM_SESSION_TYPE_ID)"

definition question_entries :: "pyval \<Rightarrow> pyval list" where
  "question_entries v =
     (case py_index v 1 of Inl e \<Rightarrow> []
      | Inr v1 \<Rightarrow> (case py_index v1 1 of Inl e \<Rightarrow> []
                  | Inr v11 \<Rightarrow> (case py_iter v11 of Inl e \<Rightarrow> [] | Inr entries \<Rightarrow> entries)))"

definition email_mode :: "pyval \<Rightarrow> pyerr + pyval" where
  "email_mode v =
     (case py_index v 1 of Inl e \<Rightarrow> Inl e
      | Inr v1 \<Rightarrow> (case py_index v1 10 of Inl e \<Rightarrow> Inl e | Inr v110 \<Rightarrow> py_index v110 6))"

definition is_page_history :: "entry \<Rightarrow> bool" where
  "is_page_history f \<longleftrightarrow> id_e f = PStr (str ''pageHistory'') \<and> name_e f = None"

definition is_email_field :: "entry \<Rightarrow> bool" where
  "is_email_field f \<longleftrightarrow> id_e f = PStr (str ''emailAddress'') \<and> name_e f = None"

definition page_breaks :: "pyval \<Rightarrow> nat" where
  "page_breaks v = length (filter is_page_break (question_entries v))"

definition with_questions ::
  "pyval \<Rightarrow> pyval \<Rightarrow> pyval list \<Rightarrow> pyval list \<Rightarrow> pyval list \<Rightarrow> pyval" where
  "with_questions a b cs ds questions = PList (a # PList (b # PList questions # cs) # ds)"

section \<open>Example dumps\<close>

text \<open>
  A short-answer question, a choice question, a page break, a text item without
  sub-entries (\<open>entry[4]\<close> is null), the same item without the position 4, the same
  item with the variant list \<open>[null]\<close>, and a dump with the given question array and
  email-collection mode; \<open>name_field\<close> and \<open>pick_field\<close> are the descriptors of the two
  questions.
\<close>

definition text_question :: pyval where
  "text_question = PList [PInt 100, PStr (str ''Name''), PNone, PInt 0,
     PList [PList [PInt 7, PNone, PInt 1]]]"

definition choice_question :: pyval where
  "choice_question = PList [PInt 101, PStr (str ''Pick''), PNone, PInt 2,
     PList [PList [PInt 8, PList [PList [PStr (str ''Red'')], PList [PStr (str ''Green'')]],
       PInt 0]]]"

definition page_break :: pyval where
  "page_break = PList [PInt 200, PStr (str ''Next''), PNone, PInt 8]"

definition note_question :: pyval where
  "note_question = PList [PInt 300, PStr (str ''Read this''), PNone, PInt 6, PNone]"

definition short_item :: pyval where
  "short_item = PList [PInt 300, PStr (str ''Read this''), PNone, PInt 6]"

definition null_variant_item :: pyval where
  "null_variant_item =
     PList [PInt 300, PStr (str ''Read this''), PNone, PInt 6, PList [PNone]]"

definition form_dump :: "pyval list \<Rightarrow> pyval \<Rightarrow> pyval" where
  "form_dump questions mode =
     PList [PNone,
       PList [PNone, PList questions, PNone, PNone, PNone, PNone, PNone, PNone, PNone, PNone,
         PList [PNone, PNone, PNone, PNone, PNone, PNone, mode]]]"

definition name_field :: entry where
  "name_field = \<lparr>id_e = PInt 7, container_name = PStr (str ''Name''), type_e = PInt 0,
     required = True, name_e = Some PNone, options = Some PNone, default_value = None\<rparr>"

definition pick_field :: entry where
  "pick_field = \<lparr>id_e = PInt 8, container_name = PStr (str ''Pick''), type_e = PInt 2,
     required = False, name_e = Some PNone,
     options = Some (PList [PStr (str ''Red''), PStr (str ''Green'')]),
     default_value = None\<rparr>"

section \<open>Notions for the properties of the extractor\<close>

text \<open>
  The array literal as the specification words it: \<open>var\<close>, one whitespace character,
  the name, \<open>=\<close> between optional whitespace, and the text from \<open>[\<close> to a closing
  \<open>];\<close>. \<open>starts_literal\<close> says that a text starts with one, \<open>has_literal\<close> that the
  page contains one, and \<open>has_close\<close> that a text contains \<open>];\<close>.
\<close>

definition literal_at :: "ustr \<Rightarrow> nat \<Rightarrow> ustr \<Rightarrow> ustr \<Rightarrow> ustr \<Rightarrow> ustr" where
  "literal_at name c ws1 ws2 inner =
     str ''var'' @ [c] @ name @ ws1 @ str ''='' @ ws2 @ str ''['' @ inner @ str '']'' @ str '';''"

definition starts_literal :: "ustr \<Rightarrow> ustr \<Rightarrow> bool" where
  "starts_literal name s \<longleftrightarrow>
     (\<exists>c ws1 ws2 inner post.
        s = literal_at name c ws1 ws2 inner @ post \<and> is_space c \<and>
        (\<forall>x \<in> set ws1. is_space x) \<and> (\<forall>x \<in> set ws2. is_space x))"

definition has_literal :: "ustr \<Rightarrow> ustr \<Rightarrow> bool" where
  "has_literal name html \<longleftrightarrow> (\<exists>pre rest. html = pre @ rest \<and> starts_literal name rest)"

definition has_close :: "ustr \<Rightarrow> bool" where
  "has_close t \<longleftrightarrow> (\<exists>a b. t = a @ str ''];'' @ b)"

text \<open>
  \<open>first_literal name html inner\<close>: the leftmost array literal of the page, taken up to
  the first \<open>];\<close> after its \<open>[\<close>, has the text \<open>inner\<close> between its brackets.
\<close>

definition first_literal :: "ustr \<Rightarrow> ustr \<Rightarrow> ustr \<Rightarrow> bool" where
  "first_literal name html inner \<longleftrightarrow>
     (\<exists>pre c ws1 ws2 post.
        html = pre @ literal_at name c ws1 ws2 inner @ post \<and> is_space c \<and>
        (\<forall>x \<in> set ws1. is_space x) \<and> (\<forall>x \<in> set ws2. is_space x) \<and>
        \<not> has_close (inner @ str '']'') \<and>
        (\<forall>p r. pre = p @ r \<and> r \<noteq> [] \<longrightarrow>
           \<not> starts_literal name (r @ literal_at name c ws1 ws2 inner @ post)))"

text \<open>
  For evaluation: \<open>json.loads\<close> on the texts \<open>[null,[7]]\<close> and \<open>[["];"]]\<close>, which it
  decodes; the other texts it is applied to below, \<open>[nope]\<close> and \<open>[["]\<close>, are not
  JSON. The double quote is the code point 34. \<open>quoted_page\<close> is the page
  \<open>var FB_PUBLIC_LOAD_DATA_ = [["];"]];\<close>, whose array holds the string \<open>];\<close>.
\<close>

definition quoted_page :: ustr where
  "quoted_page = str ''var FB_PUBLIC_LOAD_DATA_ = [['' @ [34] @ str ''];'' @ [34] @ str '']];''"

definition json_sample :: "ustr \<Rightarrow> pyerr + pyval" where
  "json_sample s =
     (if s = str ''[null,[7]]'' then Inr (PList [PNone, PList [PInt 7]])
      else if s = str ''[['' @ [34] @ str ''];'' @ [34] @ str '']]''
      then Inr (PList [PList [PStr (str ''];'')]])
      else Inl JSONDecodeError)"

section \<open>Properties of the normalization\<close>

lemma str_simps [simp]: "str [] = []" "str (c # cs) = of_char c # str cs"
  by (simp_all add: str_def)

lemma collapse_ws_set: "set (collapse_ws s) \<subseteq> insert 32 (set s)"
proof (induction s rule: collapse_ws.induct)
  case 1
  show ?case by simp
next
  case (2 c cs)
  show ?case
  proof (cases "is_space c")
    case True
    with 2 have "set (collapse_ws (dropWhile is_space cs))
        \<subseteq> insert 32 (set (dropWhile is_space cs))"
      by simp
    moreover have "set (dropWhile is_space cs) \<subseteq> set cs" by (auto dest: set_dropWhileD)
    ultimately show ?thesis using True by auto
  next
    case False
    with 2 show ?thesis by auto
  qed
qed

lemma strip_set: "set (strip s) \<subseteq> set s"
  by (auto simp: strip_def dest!: set_dropWhileD)

lemma normalize_text_ascii: "\<forall>c \<in> set (normalize_text nfkd s). c < 128"
proof -
  let ?t = "replace_char 39 39 (replace_char 96 39 (replace_char 8217 39
              (encode_ascii_ignore (nfkd s))))"
  have a: "\<forall>c \<in> set ?t. c < 128"
    by (auto simp: replace_char_def encode_ascii_ignore_def)
  have "set (strip (collapse_ws ?t)) \<subseteq> insert 32 (set ?t)"
    using strip_set [of "collapse_ws ?t"] collapse_ws_set [of ?t] by blast
  with a have "\<forall>c \<in> set (strip (collapse_ws ?t)). c < 128" by auto
  then show ?thesis by (auto simp: normalize_text_def lower_def Let_def)
qed

lemma normalize_text_ascii_part:
  "encode_ascii_ignore (nfkd s) = encode_ascii_ignore (nfkd t) \<Longrightarrow>
   normalize_text nfkd s = normalize_text nfkd t"
  by (simp add: normalize_text_def)

text \<open>
  After \<open>encode('ascii', 'ignore')\<close> the text holds no U+2019, so the first \<open>replace\<close>
  of \<open>normalize_text\<close> changes nothing, whatever the input.
\<close>

lemma replace_curly_after_encode:
  "replace_char 8217 39 (encode_ascii_ignore t) = encode_ascii_ignore t"
  by (induction t) (simp_all add: replace_char_def encode_ascii_ignore_def)

lemma normalize_text_backtick:
  "normalize_text nfkd_latin (str ''don`t'')
   = normalize_text nfkd_latin (str ''don'' @ [39] @ str ''t'')"
  by (simp add: normalize_text_def nfkd_latin_def decomp_def encode_ascii_ignore_def
      replace_char_def is_space_def strip_def lower_def)

lemma normalize_text_cafe:
  "normalize_text nfkd_latin (str ''Caf'' @ [233]) = str ''cafe''"
  by (simp add: normalize_text_def nfkd_latin_def decomp_def encode_ascii_ignore_def
      replace_char_def is_space_def strip_def lower_def)

text \<open>
  C1. Strings that differ only in accents or in apostrophe variants should normalize to
  the same text. The accent and the backtick are folded, but the curly apostrophe
  U+2019 is not: \<open>encode('ascii', 'ignore')\<close> has already deleted it when the
  replacement of U+2019 runs, so \<open>don\<close>U+2019\<open>t\<close> normalizes to \<open>dont\<close> while
  \<open>don't\<close> normalizes to \<open>don't\<close>.
\<close>

theorem normalize_text_curly_apostrophe:
  "normalize_text nfkd_latin (str ''don'' @ [8217] @ str ''t'') = str ''dont'' \<and>
   normalize_text nfkd_latin (str ''don'' @ [39] @ str ''t'') = str ''don'' @ [39] @ str ''t'' \<and>
   normalize_text nfkd_latin (str ''don'' @ [8217] @ str ''t'') \<noteq>
     normalize_text nfkd_latin (str ''don'' @ [39] @ str ''t'')"
  by (simp add: normalize_text_def nfkd_latin_def decomp_def encode_ascii_ignore_def
      replace_char_def is_space_def strip_def lower_def)

section \<open>Properties of the resolver loop\<close>

lemma fill_entry_skip: "has_default e \<Longrightarrow> fill_entry nfkd fmt fa e = Inr (e, [])"
  by (simp add: fill_entry_def)

lemma fill_loop_skip:
  "\<forall>a \<in> set app. has_default a \<Longrightarrow>
   fill_loop nfkd fmt fa (pre @ app) (length pre) = Inr (pre @ app)"
proof (induction app arbitrary: pre)
  case Nil
  show ?case by (simp add: fill_loop.simps)
next
  case (Cons a app)
  have "fill_loop nfkd fmt fa (pre @ a # app) (length pre)
      = fill_loop nfkd fmt fa ((pre @ [a]) @ app) (length (pre @ [a]))"
    using Cons.prems by (subst fill_loop.simps) (simp add: fill_entry_skip)
  also have "\<dots> = Inr ((pre @ [a]) @ app)"
    using Cons.prems by (intro Cons.IH) simp
  finally show ?case by simp
qed

lemma fill_loop_two_pass:
  "\<forall>a \<in> set app. has_default a \<Longrightarrow>
   fill_loop nfkd fmt fa (pre @ todo @ app) (length pre) =
     (case fill_two_pass nfkd fmt fa todo of Inl x \<Rightarrow> Inl x
      | Inr (todo', app') \<Rightarrow> Inr (pre @ todo' @ app @ app'))"
proof (induction todo arbitrary: pre app)
  case Nil
  then show ?case by (simp add: fill_loop_skip)
next
  case (Cons t todo)
  show ?case
  proof (cases "fill_entry nfkd fmt fa t")
    case (Inl x)
    then show ?thesis by (subst fill_loop.simps) simp
  next
    case (Inr r)
    obtain t' a where r: "r = (t', a)" by (cases r)
    have ha: "\<forall>x \<in> set (app @ a). has_default x"
      using Cons.prems fill_entry_appended [of nfkd fmt fa t t' a] Inr r by auto
    have "fill_loop nfkd fmt fa (pre @ (t # todo) @ app) (length pre)
        = fill_loop nfkd fmt fa ((pre @ [t']) @ todo @ (app @ a)) (length (pre @ [t']))"
      using Inr r by (subst fill_loop.simps) simp
    also have "\<dots> = (case fill_two_pass nfkd fmt fa todo of Inl x \<Rightarrow> Inl x
        | Inr (todo', app') \<Rightarrow> Inr ((pre @ [t']) @ todo' @ (app @ a) @ app'))"
      using ha by (rule Cons.IH)
    finally show ?thesis using Inr r by (simp split: sum.splits)
  qed
qed

lemma fill_entry_cases:
  assumes "fill_entry nfkd fmt fa e = Inr (e', app)"
  obtains (skip) "has_default e" "e' = e" "app = []"
  | (resolve) ov opts sel ol nopts ns where
      "\<not> has_default e" "options e = Some ov" "or_empty_copy ov = Inr opts"
      "fa (type_e e) (id_e e) opts (required e) (container_name e) = Inr sel"
      "py_iter opts = Inr ol" "normalize_all nfkd ol = Inr nopts"
      "normalize_val nfkd sel = Inr ns"
      "(truthy sel \<and> truthy opts \<and> ns \<in> set nopts \<and>
          e' = e\<lparr>default_value := Some (ol ! index_of ns nopts)\<rparr> \<and> app = []) \<or>
       (truthy sel \<and> truthy opts \<and> ns \<notin> set nopts \<and>
          e' = e\<lparr>default_value := Some (PStr (str ''__other_option__''))\<rparr> \<and>
          app = [other_option_entry fmt e sel]) \<or>
       (\<not> (truthy sel \<and> truthy opts) \<and> e' = e\<lparr>default_value := Some sel\<rparr> \<and> app = [])"
proof (cases "has_default e")
  case True
  with assms have "e' = e" "app = []" by (simp_all add: fill_entry_def)
  with True show ?thesis by (rule skip)
next
  case False
  from assms False obtain ov where ov: "options e = Some ov"
    by (cases "options e") (simp_all add: fill_entry_def)
  from assms False ov obtain opts where opts: "or_empty_copy ov = Inr opts"
    by (cases "or_empty_copy ov") (simp_all add: fill_entry_def)
  from assms False ov opts obtain sel where
    sel: "fa (type_e e) (id_e e) opts (required e) (container_name e) = Inr sel"
    by (cases "fa (type_e e) (id_e e) opts (required e) (container_name e)")
       (simp_all add: fill_entry_def)
  from assms False ov opts sel obtain ol where ol: "py_iter opts = Inr ol"
    by (cases "py_iter opts") (simp_all add: fill_entry_def)
  from assms False ov opts sel ol obtain nopts where nopts: "normalize_all nfkd ol = Inr nopts"
    by (cases "normalize_all nfkd ol") (simp_all add: fill_entry_def)
  from assms False ov opts sel ol nopts obtain ns where ns: "normalize_val nfkd sel = Inr ns"
    by (cases "normalize_val nfkd sel") (simp_all add: fill_entry_def)
  from assms False ov opts sel ol nopts ns have
    "(truthy sel \<and> truthy opts \<and> ns \<in> set nopts \<and>
          e' = e\<lparr>default_value := Some (ol ! index_of ns nopts)\<rparr> \<and> app = []) \<or>
       (truthy sel \<and> truthy opts \<and> ns \<notin> set nopts \<and>
          e' = e\<lparr>default_value := Some (PStr (str ''__other_option__''))\<rparr> \<and>
          app = [other_option_entry fmt e sel]) \<or>
       (\<not> (truthy sel \<and> truthy opts) \<and> e' = e\<lparr>default_value := Some sel\<rparr> \<and> app = [])"
    by (simp add: fill_entry_def split: if_splits) 
  with False ov opts sel ol nopts ns show ?thesis by (rule resolve)
qed

lemma fill_entry_resolve:
  assumes "\<not> has_default e" "options e = Some ov" "or_empty_copy ov = Inr opts"
    "fa (type_e e) (id_e e) opts (required e) (container_name e) = Inr sel"
    "py_iter opts = Inr ol" "normalize_all nfkd ol = Inr nopts"
    "normalize_val nfkd sel = Inr ns"
  shows "fill_entry nfkd fmt fa e =
     (if truthy sel \<and> truthy opts \<and> ns \<in> set nopts
      then Inr (e\<lparr>default_value := Some (ol ! index_of ns nopts)\<rparr>, [])
      else if truthy sel \<and> truthy opts
      then Inr (e\<lparr>default_value := Some (PStr (str ''__other_option__''))\<rparr>,
                [other_option_entry fmt e sel])
      else Inr (e\<lparr>default_value := Some sel\<rparr>, []))"
  using assms by (simp add: fill_entry_def)

lemma has_default_update [simp]:
  "has_default (e\<lparr>default_value := Some d\<rparr>) = truthy d"
  by (simp add: has_default_def)

lemma fill_entry_fixed:
  assumes "fill_entry nfkd fmt fa e = Inr (e', app)"
  shows "fill_entry nfkd fmt fa e' = Inr (e', [])"
  using assms
proof (cases rule: fill_entry_cases)
  case skip
  then show ?thesis by (simp add: fill_entry_skip)
next
  case (resolve ov opts sel ol nopts ns)
  show ?thesis
  proof (cases "has_default e'")
    case True
    then show ?thesis by (rule fill_entry_skip)
  next
    case False
    from resolve(8) False obtain d where
      e': "e' = e\<lparr>default_value := Some d\<rparr>" and
      d: "(truthy sel \<and> truthy opts \<and> ns \<in> set nopts \<and> d = ol ! index_of ns nopts) \<or>
          (\<not> (truthy sel \<and> truthy opts) \<and> d = sel)"
      by auto
    have "fill_entry nfkd fmt fa e' =
       (if truthy sel \<and> truthy opts \<and> ns \<in> set nopts
        then Inr (e'\<lparr>default_value := Some (ol ! index_of ns nopts)\<rparr>, [])
        else if truthy sel \<and> truthy opts
        then Inr (e'\<lparr>default_value := Some (PStr (str ''__other_option__''))\<rparr>,
                  [other_option_entry fmt e' sel])
        else Inr (e'\<lparr>default_value := Some sel\<rparr>, []))"
      using False resolve(2-7) by (intro fill_entry_resolve [where ov = ov]) (simp_all add: e')
    with d show ?thesis by (auto simp: e')
  qed
qed

lemma fill_entry_appended_shape:
  assumes "fill_entry nfkd fmt fa e = Inr (e', app)" "a \<in> set app"
  shows "\<not> has_default e \<and> has_default a \<and>
         (\<exists>c. truthy c \<and> a = other_option_entry fmt e c) \<and>
         default_value e' = Some (PStr (str ''__other_option__''))"
  using assms
proof (cases rule: fill_entry_cases)
  case skip
  with assms(2) show ?thesis by simp
next
  case (resolve ov opts sel ol nopts ns)
  with assms(2) show ?thesis
    by (auto simp: has_default_def other_option_entry_def)
qed

lemma index_of_first:
  "x \<in> set xs \<Longrightarrow>
   index_of x xs < length xs \<and> xs ! index_of x xs = x \<and> (\<forall>j < index_of x xs. xs ! j \<noteq> x)"
proof (induction xs)
  case Nil
  then show ?case by simp
next
  case (Cons y ys)
  show ?case
  proof (cases "x = y")
    case True
    then show ?thesis by simp
  next
    case False
    with Cons have IH: "index_of x ys < length ys \<and> ys ! index_of x ys = x \<and>
        (\<forall>j < index_of x ys. ys ! j \<noteq> x)" by simp
    show ?thesis using False IH by (auto simp: less_Suc_eq_0_disj)
  qed
qed

lemma normalize_all_nth:
  "normalize_all nfkd xs = Inr ns \<Longrightarrow>
   length ns = length xs \<and> (\<forall>j < length xs. normalize_val nfkd (xs ! j) = Inr (ns ! j))"
proof (induction xs arbitrary: ns)
  case Nil
  then show ?case by simp
next
  case (Cons x xs)
  from Cons.prems obtain n ns' where n: "normalize_val nfkd x = Inr n"
    and ns': "normalize_all nfkd xs = Inr ns'" and ns: "ns = n # ns'"
    by (auto split: sum.splits)
  from Cons.IH [OF ns'] n ns show ?case by (auto simp: less_Suc_eq_0_disj)
qed

lemma normalize_all_strs:
  "\<forall>x \<in> set xs. \<exists>s. x = PStr s \<Longrightarrow> \<exists>ns. normalize_all nfkd xs = Inr ns"
proof (induction xs)
  case Nil
  then show ?case by simp
next
  case (Cons x xs)
  then obtain s ns where "x = PStr s" "normalize_all nfkd xs = Inr ns" by auto
  then show ?case by simp
qed

lemma fill_two_pass_shape:
  assumes "fill_two_pass nfkd fmt fa es = Inr (upd, app)"
  shows "\<exists>as. length upd = length es \<and> length as = length es \<and> app = concat as \<and>
         (\<forall>i < length es. fill_entry nfkd fmt fa (es ! i) = Inr (upd ! i, as ! i))"
  using assms
proof (induction es arbitrary: upd app)
  case Nil
  then show ?case by simp
next
  case (Cons e es)
  from Cons.prems obtain e' a upd' app' where
    fe: "fill_entry nfkd fmt fa e = Inr (e', a)" and
    ft: "fill_two_pass nfkd fmt fa es = Inr (upd', app')" and
    u: "upd = e' # upd'" and ap: "app = a @ app'"
    by (auto split: sum.splits prod.splits)
  from Cons.IH [OF ft] obtain as where
    as: "length upd' = length es" "length as = length es" "app' = concat as"
      "\<forall>i < length es. fill_entry nfkd fmt fa (es ! i) = Inr (upd' ! i, as ! i)"
    by blast
  have "\<forall>i < length (e # es).
      fill_entry nfkd fmt fa ((e # es) ! i) = Inr (upd ! i, (a # as) ! i)"
    using fe as(4) u by (auto simp: less_Suc_eq_0_disj)
  moreover have "length upd = length (e # es)" "length (a # as) = length (e # es)"
    "app = concat (a # as)"
    using as u ap by simp_all
  ultimately show ?case by blast
qed

lemma fill_form_entries_two_pass:
  "fill_form_entries nfkd fmt fa es =
     (case fill_two_pass nfkd fmt fa es of Inl x \<Rightarrow> Inl x
      | Inr (upd, app) \<Rightarrow> Inr (upd @ app))"
  using fill_loop_two_pass [of "[]" nfkd fmt fa "[]" es]
  by (simp add: fill_form_entries_def split: sum.splits)

lemma fill_form_entries_shape:
  assumes "fill_form_entries nfkd fmt fa es = Inr res"
  shows "\<exists>upd as. res = upd @ concat as \<and> length upd = length es \<and> length as = length es \<and>
         fill_two_pass nfkd fmt fa es = Inr (upd, concat as) \<and>
         (\<forall>i < length es. fill_entry nfkd fmt fa (es ! i) = Inr (upd ! i, as ! i))"
proof -
  from assms obtain upd app where tp: "fill_two_pass nfkd fmt fa es = Inr (upd, app)"
    and res: "res = upd @ app"
    by (auto simp: fill_form_entries_two_pass split: sum.splits)
  from fill_two_pass_shape [OF tp] res tp show ?thesis by blast
qed

lemma fill_two_pass_fixed:
  assumes "\<forall>e \<in> set es. fill_entry nfkd fmt fa e = Inr (e, [])"
  shows "fill_two_pass nfkd fmt fa es = Inr (es, [])"
  using assms by (induction es) auto

lemma fill_form_entries_nth:
  assumes "fill_form_entries nfkd fmt fa es = Inr res" "i < length es"
    "fill_entry nfkd fmt fa (es ! i) = Inr (e', a)"
  shows "res ! i = e' \<and> set a \<subseteq> set (drop (length es) res)"
proof -
  from fill_form_entries_shape [OF assms(1)] obtain upd as where
    s: "res = upd @ concat as" "length upd = length es" "length as = length es"
      "\<forall>i < length es. fill_entry nfkd fmt fa (es ! i) = Inr (upd ! i, as ! i)"
    by blast
  from s(4) assms(2,3) have "upd ! i = e'" "as ! i = a" by auto
  moreover have "as ! i \<in> set as"
    using assms(2) s(3) by simp
  then have "set (as ! i) \<subseteq> set (concat as)"
    by auto
  ultimately show ?thesis using s(1,2) assms(2) by (simp add: nth_append)
qed

section \<open>Properties of the resolver on one descriptor\<close>

lemmas normalize_eval = normalize_text_def nfkd_latin_def decomp_def encode_ascii_ignore_def
  replace_char_def is_space_def strip_def lower_def

lemmas fill_eval = fill_entry_def has_default_def or_empty_copy_def other_option_entry_def
  str_int_def str_nat.simps

lemma all_strs_normalize:
  assumes "\<forall>x \<in> set opts. \<exists>s. x = PStr s"
  obtains nopts where "normalize_all nfkd opts = Inr nopts" "length nopts = length opts"
    "\<forall>j < length opts. normalize_val nfkd (opts ! j) = Inr (nopts ! j)"
  using normalize_all_strs [OF assms, of nfkd] normalize_all_nth [of nfkd opts] by blast

lemma fill_entry_list:
  assumes "\<not> has_default e" "options e = Some (PList opts)"
    "fa (type_e e) (id_e e) (PList opts) (required e) (container_name e) = Inr sel"
    "normalize_all nfkd opts = Inr nopts" "normalize_val nfkd sel = Inr ns"
  shows "fill_entry nfkd fmt fa e =
     (if truthy sel \<and> opts \<noteq> [] \<and> ns \<in> set nopts
      then Inr (e\<lparr>default_value := Some (opts ! index_of ns nopts)\<rparr>, [])
      else if truthy sel \<and> opts \<noteq> []
      then Inr (e\<lparr>default_value := Some (PStr (str ''__other_option__''))\<rparr>,
                [other_option_entry fmt e sel])
      else Inr (e\<lparr>default_value := Some sel\<rparr>, []))"
  using assms by (cases opts) (simp_all add: fill_entry_def or_empty_copy_def)

text \<open>
  C2 (amended). A descriptor with no default and a list of string options, a non-empty
  candidate string whose normalization equals that of some option: the resolver stores
  the original text of the first such option as the default and appends nothing. The
  descriptor alone in the list yields a one-element list; in any list whose run
  succeeds, the descriptor's position holds the updated descriptor.
\<close>

theorem resolver_stores_matching_option:
  assumes nd: "\<not> has_default e"
    and ov: "options e = Some (PList opts)"
    and strs: "\<forall>x \<in> set opts. \<exists>s. x = PStr s"
    and cand: "fa (type_e e) (id_e e) (PList opts) (required e) (container_name e)
                 = Inr (PStr cand)"
    and ne: "cand \<noteq> []"
    and m: "\<exists>x \<in> set opts. normalize_val nfkd x = Inr (normalize_text nfkd cand)"
  shows "\<exists>k < length opts.
           normalize_val nfkd (opts ! k) = Inr (normalize_text nfkd cand) \<and>
           (\<forall>j < k. normalize_val nfkd (opts ! j) \<noteq> Inr (normalize_text nfkd cand)) \<and>
           fill_entry nfkd fmt fa e = Inr (e\<lparr>default_value := Some (opts ! k)\<rparr>, []) \<and>
           fill_form_entries nfkd fmt fa [e] = Inr [e\<lparr>default_value := Some (opts ! k)\<rparr>] \<and>
           (\<forall>pre post res. fill_form_entries nfkd fmt fa (pre @ e # post) = Inr res \<longrightarrow>
              res ! length pre = e\<lparr>default_value := Some (opts ! k)\<rparr>)"
proof -
  from strs obtain nopts where no: "normalize_all nfkd opts = Inr nopts"
    and len: "length nopts = length opts"
    and nth: "\<forall>j < length opts. normalize_val nfkd (opts ! j) = Inr (nopts ! j)"
    by (rule all_strs_normalize)
  let ?ns = "normalize_text nfkd cand"
  let ?k = "index_of ?ns nopts"
  from m obtain j where "j < length opts" "normalize_val nfkd (opts ! j) = Inr ?ns"
    by (auto simp: in_set_conv_nth)
  with nth len have mem: "?ns \<in> set nopts" by (auto simp: in_set_conv_nth)
  note ix = index_of_first [OF mem]
  from m have one: "opts \<noteq> []" by auto
  have step: "fill_entry nfkd fmt fa e = Inr (e\<lparr>default_value := Some (opts ! ?k)\<rparr>, [])"
    using ne one mem
    by (simp add: fill_entry_list [where fa = fa, OF nd ov cand no])
  have k: "?k < length opts" using ix len by simp
  have hit: "normalize_val nfkd (opts ! ?k) = Inr ?ns" using ix nth k by simp
  have first: "\<forall>j < ?k. normalize_val nfkd (opts ! j) \<noteq> Inr ?ns"
    using ix nth k by auto
  have single: "fill_form_entries nfkd fmt fa [e] = Inr [e\<lparr>default_value := Some (opts ! ?k)\<rparr>]"
    by (simp add: fill_form_entries_two_pass step)
  have ctx: "\<forall>pre post res. fill_form_entries nfkd fmt fa (pre @ e # post) = Inr res \<longrightarrow>
      res ! length pre = e\<lparr>default_value := Some (opts ! ?k)\<rparr>"
  proof (intro allI impI)
    fix pre post res
    assume run: "fill_form_entries nfkd fmt fa (pre @ e # post) = Inr res"
    show "res ! length pre = e\<lparr>default_value := Some (opts ! ?k)\<rparr>"
      using fill_form_entries_nth [OF run, of "length pre"] step by simp
  qed
  from k hit first step single ctx show ?thesis by blast
qed

lemmas example_defs = answer_def choice_entry_def text_entry_def

text \<open>Options Red, Green, Blue and the candidate \<open>blue\<close>: the default is \<open>Blue\<close>.\<close>

theorem resolver_stores_matching_option_witness:
  "fill_form_entries nfkd_latin format_scalar (answer (PStr (str ''blue'')))
     [choice_entry [PStr (str ''Red''), PStr (str ''Green''), PStr (str ''Blue'')]]
   = Inr [(choice_entry [PStr (str ''Red''), PStr (str ''Green''), PStr (str ''Blue'')])
            \<lparr>default_value := Some (PStr (str ''Blue''))\<rparr>]"
proof -
  let ?opts = "[PStr (str ''Red''), PStr (str ''Green''), PStr (str ''Blue'')]"
  let ?e = "choice_entry ?opts"
  let ?fa = "answer (PStr (str ''blue''))"
  have 1: "\<not> has_default ?e" by (simp add: has_default_def example_defs)
  have 2: "options ?e = Some (PList ?opts)" by (simp add: example_defs)
  have 3: "\<forall>x \<in> set ?opts. \<exists>s. x = PStr s" by simp
  have 4: "?fa (type_e ?e) (id_e ?e) (PList ?opts) (required ?e) (container_name ?e)
      = Inr (PStr (str ''blue''))" by (simp add: example_defs)
  have 5: "str ''blue'' \<noteq> []" by simp
  have 6: "\<exists>x \<in> set ?opts. normalize_val nfkd_latin x
      = Inr (normalize_text nfkd_latin (str ''blue''))" by (simp add: normalize_eval)
  from resolver_stores_matching_option
    [where fa = ?fa and e = ?e and fmt = format_scalar, OF 1 2 3 4 5 6]
  obtain k where k: "k < length ?opts"
    "normalize_val nfkd_latin (?opts ! k) = Inr (normalize_text nfkd_latin (str ''blue''))"
    "fill_form_entries nfkd_latin format_scalar ?fa [?e]
       = Inr [?e\<lparr>default_value := Some (?opts ! k)\<rparr>]"
    by blast
  from k(1) have "k = 0 \<or> k = 1 \<or> k = 2" by auto
  with k(2) have "k = 2" by (auto simp: normalize_eval)
  with k(3) show ?thesis by simp
qed

text \<open>
  C2 as stated fails for the empty candidate: its normalization is the empty text, which
  is also the normalization of an option without ASCII characters, but the code tests
  \<open>selected_value and options and ...\<close> and stores the empty candidate itself.
\<close>

theorem empty_candidate_not_matched:
  "\<not> has_default (choice_entry [PStr [26085, 26412, 35486], PStr (str ''English'')]) \<and>
   normalize_val nfkd_latin (PStr [26085, 26412, 35486]) = Inr (normalize_text nfkd_latin []) \<and>
   fill_form_entries nfkd_latin format_scalar (answer (PStr []))
     [choice_entry [PStr [26085, 26412, 35486], PStr (str ''English'')]]
   = Inr [(choice_entry [PStr [26085, 26412, 35486], PStr (str ''English'')])
            \<lparr>default_value := Some (PStr [])\<rparr>] \<and>
   PStr [] \<noteq> PStr [26085, 26412, 35486]"
  by (simp add: fill_form_entries_two_pass fill_eval normalize_eval example_defs)

text \<open>
  C3 (amended). A descriptor with no default and a non-empty list of string options, a
  non-empty candidate string whose normalization equals that of no option: the resolver
  stores the marker \<open>__other_option__\<close> as the default and appends exactly one
  descriptor, with the id \<open><id>.other_option_response\<close>, the type \<open>text\<close>, the required
  flag of the original and the raw candidate as its default.
\<close>

theorem resolver_appends_other_option:
  assumes nd: "\<not> has_default e"
    and ov: "options e = Some (PList opts)"
    and one: "opts \<noteq> []"
    and strs: "\<forall>x \<in> set opts. \<exists>s. x = PStr s"
    and cand: "fa (type_e e) (id_e e) (PList opts) (required e) (container_name e)
                 = Inr (PStr cand)"
    and ne: "cand \<noteq> []"
    and nm: "\<forall>x \<in> set opts. normalize_val nfkd x \<noteq> Inr (normalize_text nfkd cand)"
  shows "\<exists>a. fill_entry nfkd fmt fa e
             = Inr (e\<lparr>default_value := Some (PStr (str ''__other_option__''))\<rparr>, [a]) \<and>
           fill_form_entries nfkd fmt fa [e]
             = Inr [e\<lparr>default_value := Some (PStr (str ''__other_option__''))\<rparr>, a] \<and>
           id_e a = PStr (fmt (id_e e) @ str ''.other_option_response'') \<and>
           type_e a = PStr (str ''text'') \<and> required a = required e \<and>
           default_value a = Some (PStr cand) \<and>
           (\<forall>pre post res. fill_form_entries nfkd fmt fa (pre @ e # post) = Inr res \<longrightarrow>
              res ! length pre = e\<lparr>default_value := Some (PStr (str ''__other_option__''))\<rparr> \<and>
              a \<in> set (drop (length (pre @ e # post)) res))"
proof -
  from strs obtain nopts where no: "normalize_all nfkd opts = Inr nopts"
    and len: "length nopts = length opts"
    and nth: "\<forall>j < length opts. normalize_val nfkd (opts ! j) = Inr (nopts ! j)"
    by (rule all_strs_normalize)
  let ?ns = "normalize_text nfkd cand"
  let ?a = "other_option_entry fmt e (PStr cand)"
  let ?e' = "e\<lparr>default_value := Some (PStr (str ''__other_option__''))\<rparr>"
  have nmem: "?ns \<notin> set nopts"
  proof
    assume "?ns \<in> set nopts"
    then obtain j where j: "j < length nopts" "nopts ! j = ?ns"
      by (auto simp: in_set_conv_nth)
    with nth len have "normalize_val nfkd (opts ! j) = Inr ?ns" by simp
    moreover have "opts ! j \<in> set opts" using j(1) len by simp
    ultimately show False using nm by blast
  qed
  have step: "fill_entry nfkd fmt fa e = Inr (?e', [?a])"
    using ne one nmem
    by (simp add: fill_entry_list [where fa = fa, OF nd ov cand no])
  have single: "fill_form_entries nfkd fmt fa [e] = Inr [?e', ?a]"
    by (simp add: fill_form_entries_two_pass step)
  have ctx: "\<forall>pre post res. fill_form_entries nfkd fmt fa (pre @ e # post) = Inr res \<longrightarrow>
      res ! length pre = ?e' \<and> ?a \<in> set (drop (length (pre @ e # post)) res)"
  proof (intro allI impI)
    fix pre post res
    assume run: "fill_form_entries nfkd fmt fa (pre @ e # post) = Inr res"
    show "res ! length pre = ?e' \<and> ?a \<in> set (drop (length (pre @ e # post)) res)"
      using fill_form_entries_nth [OF run, of "length pre"] step by simp
  qed
  have fields: "id_e ?a = PStr (fmt (id_e e) @ str ''.other_option_response'')"
    "type_e ?a = PStr (str ''text'')" "required ?a = required e"
    "default_value ?a = Some (PStr cand)"
    by (simp_all add: other_option_entry_def)
  from step single ctx fields show ?thesis by blast
qed

text \<open>Options Red, Green and the candidate \<open>Purple\<close>.\<close>

theorem resolver_appends_other_option_witness:
  "fill_form_entries nfkd_latin format_scalar (answer (PStr (str ''Purple'')))
     [choice_entry [PStr (str ''Red''), PStr (str ''Green'')]]
   = Inr [(choice_entry [PStr (str ''Red''), PStr (str ''Green'')])
            \<lparr>default_value := Some (PStr (str ''__other_option__''))\<rparr>,
          \<lparr>id_e = PStr (str ''7.other_option_response''),
           container_name = PStr (str ''Pick (Other)''), type_e = PStr (str ''text''),
           required = True, name_e = None, options = None,
           default_value = Some (PStr (str ''Purple''))\<rparr>]"
proof -
  let ?opts = "[PStr (str ''Red''), PStr (str ''Green'')]"
  let ?e = "choice_entry ?opts"
  let ?fa = "answer (PStr (str ''Purple''))"
  have 1: "\<not> has_default ?e" by (simp add: has_default_def example_defs)
  have 2: "options ?e = Some (PList ?opts)" by (simp add: example_defs)
  have 3: "?opts \<noteq> []" by simp
  have 4: "\<forall>x \<in> set ?opts. \<exists>s. x = PStr s" by simp
  have 5: "?fa (type_e ?e) (id_e ?e) (PList ?opts) (required ?e) (container_name ?e)
      = Inr (PStr (str ''Purple''))" by (simp add: example_defs)
  have 6: "str ''Purple'' \<noteq> []" by simp
  have 7: "\<forall>x \<in> set ?opts. normalize_val nfkd_latin x
      \<noteq> Inr (normalize_text nfkd_latin (str ''Purple''))" by (simp add: normalize_eval)
  from resolver_appends_other_option
    [where fa = ?fa and e = ?e and fmt = format_scalar, OF 1 2 3 4 5 6 7]
  obtain a where a:
    "fill_form_entries nfkd_latin format_scalar ?fa [?e]
       = Inr [?e\<lparr>default_value := Some (PStr (str ''__other_option__''))\<rparr>, a]"
    "fill_entry nfkd_latin format_scalar ?fa ?e
       = Inr (?e\<lparr>default_value := Some (PStr (str ''__other_option__''))\<rparr>, [a])"
    by blast
  from a(2) have "a = \<lparr>id_e = PStr (str ''7.other_option_response''),
           container_name = PStr (str ''Pick (Other)''), type_e = PStr (str ''text''),
           required = True, name_e = None, options = None,
           default_value = Some (PStr (str ''Purple''))\<rparr>"
    by (simp add: fill_eval normalize_eval example_defs)
  with a(1) show ?thesis by simp
qed

text \<open>
  C3 as stated fails for the empty candidate: it matches no option, but the code tests
  \<open>selected_value and options\<close>, stores the empty candidate and appends nothing.
\<close>

theorem empty_candidate_no_other_option:
  "\<not> has_default (choice_entry [PStr (str ''Red''), PStr (str ''Green'')]) \<and>
   normalize_val nfkd_latin (PStr (str ''Red'')) \<noteq> Inr (normalize_text nfkd_latin []) \<and>
   normalize_val nfkd_latin (PStr (str ''Green'')) \<noteq> Inr (normalize_text nfkd_latin []) \<and>
   fill_form_entries nfkd_latin format_scalar (answer (PStr []))
     [choice_entry [PStr (str ''Red''), PStr (str ''Green'')]]
   = Inr [(choice_entry [PStr (str ''Red''), PStr (str ''Green'')])
            \<lparr>default_value := Some (PStr [])\<rparr>] \<and>
   PStr [] \<noteq> PStr (str ''__other_option__'')"
  by (simp add: fill_form_entries_two_pass fill_eval normalize_eval example_defs)

section \<open>Properties of the resolver on a list\<close>

lemma fill_form_entries_fixed:
  assumes "\<forall>e \<in> set es. fill_entry nfkd fmt fa e = Inr (e, [])"
  shows "fill_form_entries nfkd fmt fa es = Inr es"
  by (simp add: fill_form_entries_two_pass fill_two_pass_fixed [OF assms])

lemma length_concat_le:
  "\<forall>a \<in> set as. length a \<le> 1 \<Longrightarrow> length (concat as) \<le> length as"
  by (induction as) auto

lemma upt_0_3: "[0..<3] = [0, 1, 2]"
  by (simp add: numeral_3_eq_3 numeral_2_eq_2)

lemma page_history_default_2:
  "default_value (page_history_entry 2) = Some (PStr (str ''0,1,2''))"
  by (simp add: page_history_entry_def str_nat.simps upt_0_3)

lemma join_Cons_nonempty: "x \<noteq> [] \<Longrightarrow> join sep (x # xs) \<noteq> []"
  by (cases xs) simp_all

lemma has_default_page_history: "has_default (page_history_entry n)"
proof -
  have "[0..<n + 1] = 0 # [1..<n + 1]"
    by (subst upt_rec) simp
  then have "map str_nat [0..<n + 1] = str_nat 0 # map str_nat [1..<n + 1]"
    by simp
  moreover have "str_nat 0 \<noteq> []" by (simp add: str_nat.simps)
  ultimately have "join (str '','') (map str_nat [0..<n + 1]) \<noteq> []"
    by (simp only: join_Cons_nonempty not_False_eq_True)
  then show ?thesis
    by (simp add: has_default_def page_history_entry_def)
qed

text \<open>
  C4 (amended). After a run that returns, a second run with the same strategy returns
  the same list. A descriptor whose default is set and truthy (the test of
  \<open>entry.get('default_value')\<close>) is left as it is and nothing is appended for it; a
  list in which every descriptor has such a default is left as it is by every strategy.
\<close>

theorem resolver_idempotent:
  assumes run: "fill_form_entries nfkd fmt fa es = Inr res"
  shows "fill_form_entries nfkd fmt fa res = Inr res \<and>
         (\<forall>i < length es. has_default (es ! i) \<longrightarrow>
            res ! i = es ! i \<and> fill_entry nfkd fmt fa (es ! i) = Inr (es ! i, [])) \<and>
         (\<forall>fa'. (\<forall>e \<in> set res. has_default e) \<longrightarrow>
            fill_form_entries nfkd fmt fa' res = Inr res)"
proof -
  from fill_form_entries_shape [OF run] obtain upd as where
    s: "res = upd @ concat as" "length upd = length es" "length as = length es"
      "\<forall>i < length es. fill_entry nfkd fmt fa (es ! i) = Inr (upd ! i, as ! i)"
    by blast
  have fixed: "\<forall>e \<in> set res. fill_entry nfkd fmt fa e = Inr (e, [])"
  proof
    fix e assume "e \<in> set res"
    with s(1) consider (u) "e \<in> set upd" | (a) "e \<in> set (concat as)" by auto
    then show "fill_entry nfkd fmt fa e = Inr (e, [])"
    proof cases
      case u
      then obtain i where i: "i < length upd" "upd ! i = e" by (auto simp: in_set_conv_nth)
      with s(2,4) have "fill_entry nfkd fmt fa (es ! i) = Inr (e, as ! i)" by auto
      then show ?thesis by (rule fill_entry_fixed)
    next
      case a
      then obtain b where "b \<in> set as" "e \<in> set b" by auto
      then obtain i where i: "i < length as" "e \<in> set (as ! i)"
        by (auto simp: in_set_conv_nth)
      with s(3,4) have "fill_entry nfkd fmt fa (es ! i) = Inr (upd ! i, as ! i)" by auto
      from fill_entry_appended [OF this] i(2) have "has_default e" by blast
      then show ?thesis by (rule fill_entry_skip)
    qed
  qed
  have again: "fill_form_entries nfkd fmt fa res = Inr res"
    using fixed by (rule fill_form_entries_fixed)
  have kept: "\<forall>i < length es. has_default (es ! i) \<longrightarrow>
      res ! i = es ! i \<and> fill_entry nfkd fmt fa (es ! i) = Inr (es ! i, [])"
  proof (intro allI impI)
    fix i assume i: "i < length es" and d: "has_default (es ! i)"
    have sk: "fill_entry nfkd fmt fa (es ! i) = Inr (es ! i, [])"
      using d by (rule fill_entry_skip)
    from fill_form_entries_nth [OF run i sk] sk
    show "res ! i = es ! i \<and> fill_entry nfkd fmt fa (es ! i) = Inr (es ! i, [])" by simp
  qed
  have any: "\<forall>fa'. (\<forall>e \<in> set res. has_default e) \<longrightarrow>
      fill_form_entries nfkd fmt fa' res = Inr res"
    by (auto intro!: fill_form_entries_fixed fill_entry_skip)
  from again kept any show ?thesis by blast
qed

text \<open>A page-history pseudo-field and a resolved choice: the second run changes nothing.\<close>

theorem resolver_idempotent_witness:
  "fill_form_entries nfkd_latin format_scalar (answer (PStr (str ''blue'')))
     [page_history_entry 2,
      (choice_entry [PStr (str ''Red''), PStr (str ''Blue'')])
        \<lparr>default_value := Some (PStr (str ''Blue''))\<rparr>]
   = Inr [page_history_entry 2,
      (choice_entry [PStr (str ''Red''), PStr (str ''Blue'')])
        \<lparr>default_value := Some (PStr (str ''Blue''))\<rparr>] \<and>
   default_value (page_history_entry 2) = Some (PStr (str ''0,1,2''))"
proof -
  let ?fa = "answer (PStr (str ''blue''))"
  let ?es = "[page_history_entry 2, choice_entry [PStr (str ''Red''), PStr (str ''Blue'')]]"
  let ?res = "[page_history_entry 2,
      (choice_entry [PStr (str ''Red''), PStr (str ''Blue'')])
        \<lparr>default_value := Some (PStr (str ''Blue''))\<rparr>]"
  have s1: "fill_entry nfkd_latin format_scalar ?fa (page_history_entry 2)
      = Inr (page_history_entry 2, [])"
    by (simp add: fill_entry_skip has_default_page_history)
  have s2: "fill_entry nfkd_latin format_scalar ?fa
        (choice_entry [PStr (str ''Red''), PStr (str ''Blue'')])
      = Inr ((choice_entry [PStr (str ''Red''), PStr (str ''Blue'')])
               \<lparr>default_value := Some (PStr (str ''Blue''))\<rparr>, [])"
    by (simp add: fill_eval normalize_eval example_defs)
  have run: "fill_form_entries nfkd_latin format_scalar ?fa ?es = Inr ?res"
    using s1 s2 by (simp add: fill_form_entries_two_pass)
  have d: "default_value (page_history_entry 2) = Some (PStr (str ''0,1,2''))"
    by (rule page_history_default_2)
  from resolver_idempotent [OF run] d show ?thesis by blast
qed

text \<open>
  C4 as stated fails for a descriptor that carries the empty text as its default (as a
  first run leaves a free-text field for which the strategy answered the empty text):
  the empty default is falsy, so a later run asks the strategy again and overwrites it.
\<close>

theorem empty_default_overwritten:
  "default_value (text_entry (Some (PStr []))) = Some (PStr []) \<and>
   fill_form_entries nfkd_latin format_scalar (answer (PStr []))
     [text_entry None] = Inr [text_entry (Some (PStr []))] \<and>
   fill_form_entries nfkd_latin format_scalar (answer (PStr (str ''hello'')))
     [text_entry (Some (PStr []))] = Inr [text_entry (Some (PStr (str ''hello'')))] \<and>
   text_entry (Some (PStr (str ''hello''))) \<noteq> text_entry (Some (PStr []))"
  by (simp add: fill_form_entries_two_pass fill_eval normalize_eval example_defs)

text \<open>
  C10. The loop, which appends to the list it iterates, returns what the two-pass
  resolver returns; being a total function with a structurally recursive equivalent, it
  ends on every list. When it returns, the result is the processed originals followed
  by what was appended; each original appended at most one descriptor; every appended
  descriptor carries a truthy default, is left as it is by the loop when its turn comes
  and was built from an original descriptor (never from an appended one); the result
  is at most twice as long as the input.
\<close>

theorem appended_descriptors_resolved:
  "fill_form_entries nfkd fmt fa es =
     (case fill_two_pass nfkd fmt fa es of Inl x \<Rightarrow> Inl x
      | Inr (upd, app) \<Rightarrow> Inr (upd @ app)) \<and>
   (\<forall>res. fill_form_entries nfkd fmt fa es = Inr res \<longrightarrow>
      (\<exists>upd as. res = upd @ concat as \<and> length upd = length es \<and>
         length as = length es \<and> length res \<le> 2 * length es \<and>
         (\<forall>i < length es.
            fill_entry nfkd fmt fa (es ! i) = Inr (upd ! i, as ! i) \<and>
            length (as ! i) \<le> 1 \<and>
            (\<forall>a \<in> set (as ! i).
               has_default a \<and> fill_entry nfkd fmt fa a = Inr (a, []) \<and>
               (\<exists>c. truthy c \<and> a = other_option_entry fmt (es ! i) c)))))"
proof (intro conjI allI impI)
  show "fill_form_entries nfkd fmt fa es =
     (case fill_two_pass nfkd fmt fa es of Inl x \<Rightarrow> Inl x
      | Inr (upd, app) \<Rightarrow> Inr (upd @ app))"
    by (rule fill_form_entries_two_pass)
next
  fix res
  assume run: "fill_form_entries nfkd fmt fa es = Inr res"
  from fill_form_entries_shape [OF run] obtain upd as where
    s: "res = upd @ concat as" "length upd = length es" "length as = length es"
      "\<forall>i < length es. fill_entry nfkd fmt fa (es ! i) = Inr (upd ! i, as ! i)"
    by blast
  have each: "\<forall>i < length es.
      fill_entry nfkd fmt fa (es ! i) = Inr (upd ! i, as ! i) \<and> length (as ! i) \<le> 1 \<and>
      (\<forall>a \<in> set (as ! i). has_default a \<and> fill_entry nfkd fmt fa a = Inr (a, []) \<and>
         (\<exists>c. truthy c \<and> a = other_option_entry fmt (es ! i) c))"
  proof (intro allI impI)
    fix i assume "i < length es"
    with s(4) have fe: "fill_entry nfkd fmt fa (es ! i) = Inr (upd ! i, as ! i)" by simp
    have "length (as ! i) \<le> 1" using fill_entry_appended [OF fe] by simp
    moreover have "\<forall>a \<in> set (as ! i). has_default a \<and>
        fill_entry nfkd fmt fa a = Inr (a, []) \<and>
        (\<exists>c. truthy c \<and> a = other_option_entry fmt (es ! i) c)"
      using fill_entry_appended_shape [OF fe] by (auto intro: fill_entry_skip)
    ultimately show "fill_entry nfkd fmt fa (es ! i) = Inr (upd ! i, as ! i) \<and>
        length (as ! i) \<le> 1 \<and>
        (\<forall>a \<in> set (as ! i). has_default a \<and> fill_entry nfkd fmt fa a = Inr (a, []) \<and>
           (\<exists>c. truthy c \<and> a = other_option_entry fmt (es ! i) c))"
      using fe by simp
  qed
  have "\<forall>a \<in> set as. length a \<le> 1"
    using each s(3) by (auto simp: in_set_conv_nth)
  then have "length (concat as) \<le> length as" by (rule length_concat_le)
  with s(1,2,3) have len: "length res \<le> 2 * length es" by simp
  from s(1,2,3) len each
  show "\<exists>upd as. res = upd @ concat as \<and> length upd = length es \<and>
         length as = length es \<and> length res \<le> 2 * length es \<and>
         (\<forall>i < length es.
            fill_entry nfkd fmt fa (es ! i) = Inr (upd ! i, as ! i) \<and>
            length (as ! i) \<le> 1 \<and>
            (\<forall>a \<in> set (as ! i).
               has_default a \<and> fill_entry nfkd fmt fa a = Inr (a, []) \<and>
               (\<exists>c. truthy c \<and> a = other_option_entry fmt (es ! i) c)))"
    by blast
qed

text \<open>A choice answered outside its options, followed by a free-text field.\<close>

theorem appended_descriptors_resolved_witness:
  "fill_form_entries nfkd_latin format_scalar (answer (PStr (str ''Teal'')))
     [choice_entry [PStr (str ''Red'')], text_entry None]
   = Inr [(choice_entry [PStr (str ''Red'')])
            \<lparr>default_value := Some (PStr (str ''__other_option__''))\<rparr>,
          text_entry (Some (PStr (str ''Teal''))),
          other_option_entry format_scalar (choice_entry [PStr (str ''Red'')])
            (PStr (str ''Teal''))] \<and>
   id_e (other_option_entry format_scalar (choice_entry [PStr (str ''Red'')])
            (PStr (str ''Teal''))) = PStr (str ''7.other_option_response'') \<and>
   has_default (other_option_entry format_scalar (choice_entry [PStr (str ''Red'')])
            (PStr (str ''Teal'')))"
proof -
  let ?fa = "answer (PStr (str ''Teal''))"
  let ?c = "choice_entry [PStr (str ''Red'')]"
  have s1: "fill_entry nfkd_latin format_scalar ?fa ?c
      = Inr (?c\<lparr>default_value := Some (PStr (str ''__other_option__''))\<rparr>,
             [other_option_entry format_scalar ?c (PStr (str ''Teal''))])"
    by (simp add: fill_entry_def has_default_def or_empty_copy_def normalize_eval
        example_defs)
  have s2: "fill_entry nfkd_latin format_scalar ?fa (text_entry None)
      = Inr (text_entry (Some (PStr (str ''Teal''))), [])"
    by (simp add: fill_entry_def has_default_def or_empty_copy_def normalize_eval
        example_defs)
  have tp: "fill_two_pass nfkd_latin format_scalar ?fa [?c, text_entry None]
      = Inr ([?c\<lparr>default_value := Some (PStr (str ''__other_option__''))\<rparr>,
              text_entry (Some (PStr (str ''Teal'')))],
             [other_option_entry format_scalar ?c (PStr (str ''Teal''))])"
    using s1 s2 by simp
  have run: "fill_form_entries nfkd_latin format_scalar ?fa [?c, text_entry None]
      = Inr [?c\<lparr>default_value := Some (PStr (str ''__other_option__''))\<rparr>,
             text_entry (Some (PStr (str ''Teal''))),
             other_option_entry format_scalar ?c (PStr (str ''Teal''))]"
    using appended_descriptors_resolved [of nfkd_latin format_scalar ?fa "[?c, text_entry None]"]
      tp by simp
  have i: "id_e (other_option_entry format_scalar ?c (PStr (str ''Teal'')))
      = PStr (str ''7.other_option_response'')"
    by (simp add: other_option_entry_def example_defs str_int_def str_nat.simps)
  have d: "has_default (other_option_entry format_scalar ?c (PStr (str ''Teal'')))"
    by (simp add: other_option_entry_def has_default_def)
  from run i d show ?thesis by blast
qed

section \<open>Properties of the normalizer\<close>

lemma sub_entry_info_name:
  "sub_entry_info en et s = Inr info \<Longrightarrow> name_e info \<noteq> None \<and> default_value info = None"
  by (auto simp: sub_entry_info_def split: sum.splits if_splits)

lemma parse_sub_entries_fields:
  "parse_sub_entries r en et subs acc = Inr res \<Longrightarrow>
   \<exists>new. res = acc @ new \<and> (\<forall>f \<in> set new. name_e f \<noteq> None \<and> default_value f = None)"
proof (induction subs arbitrary: acc)
  case Nil
  then show ?case by simp
next
  case (Cons s subs)
  from Cons.prems obtain info where info: "sub_entry_info en et s = Inr info"
    by (auto split: sum.splits)
  note nm = sub_entry_info_name [OF info]
  show ?case
  proof (cases "r \<and> \<not> required info")
    case True
    with Cons.prems info have "parse_sub_entries r en et subs acc = Inr res" by simp
    from Cons.IH [OF this] show ?thesis .
  next
    case False
    with Cons.prems info have "parse_sub_entries r en et subs (acc @ [info]) = Inr res"
      by auto
    from Cons.IH [OF this] obtain new where
      "res = (acc @ [info]) @ new" "\<forall>f \<in> set new. name_e f \<noteq> None \<and> default_value f = None"
      by blast
    with nm have "res = acc @ (info # new) \<and>
        (\<forall>f \<in> set (info # new). name_e f \<noteq> None \<and> default_value f = None)" by simp
    then show ?thesis by blast
  qed
qed

lemma parse_entry_fields:
  assumes "parse_entry r entry = Inr (w, fs)"
  shows "\<forall>f \<in> set fs. name_e f \<noteq> None \<and> default_value f = None"
proof -
  from assms obtain en et e4 where
    e4: "py_index entry 1 = Inr en" "py_index entry 3 = Inr et" "py_index entry 4 = Inr e4"
    by (auto simp: parse_entry_def split: sum.splits)
  show ?thesis
  proof (cases e4)
    case (PList subs)
    with assms e4 have "parse_sub_entries r en et subs [] = Inr fs"
      by (auto simp: parse_entry_def split: sum.splits)
    from parse_sub_entries_fields [OF this] show ?thesis by simp
  qed (use assms e4 in \<open>auto simp: parse_entry_def\<close>)
qed

lemma parse_entries_shape:
  "parse_entries r es out pc acc = (out', Inr (pc', fs)) \<Longrightarrow>
   pc' = pc + length (filter is_page_break es) \<and>
   (\<exists>new. fs = acc @ new \<and> (\<forall>f \<in> set new. name_e f \<noteq> None \<and> default_value f = None)) \<and>
   (\<forall>n. parse_entries r (filter (\<lambda>e. \<not> is_page_break e) es) out n acc
          = (out', Inr (n, fs)))"
proof (induction es arbitrary: out pc acc)
  case Nil
  then show ?case by simp
next
  case (Cons e es)
  from Cons.prems obtain t where t: "py_index e 3 = Inr t"
    by (auto split: sum.splits)
  show ?case
  proof (cases "eq_int t FORM_SESSION_TYPE_ID")
    case True
    then have pb: "is_page_break e" by (simp add: is_page_break_def t)
    from Cons.prems t True have "parse_entries r es out (pc + 1) acc = (out', Inr (pc', fs))"
      by simp
    from Cons.IH [OF this] pb show ?thesis by simp
  next
    case False
    then have pb: "\<not> is_page_break e" by (simp add: is_page_break_def t)
    from Cons.prems t False obtain w f where
      pe: "parse_entry r e = Inr (w, f)" and
      rest: "parse_entries r es (out @ w) pc (acc @ f) = (out', Inr (pc', fs))"
      by (auto split: sum.splits)
    from Cons.IH [OF rest] obtain new where
      IH: "pc' = pc + length (filter is_page_break es)" "fs = (acc @ f) @ new"
        "\<forall>x \<in> set new. name_e x \<noteq> None \<and> default_value x = None"
        "\<forall>n. parse_entries r (filter (\<lambda>e. \<not> is_page_break e) es) (out @ w) n (acc @ f)
           = (out', Inr (n, fs))"
      by blast
    from parse_entry_fields [OF pe] IH(2,3) have
      "fs = acc @ (f @ new) \<and> (\<forall>x \<in> set (f @ new). name_e x \<noteq> None \<and> default_value x = None)"
      by auto
    then have "\<exists>new. fs = acc @ new \<and> (\<forall>x \<in> set new. name_e x \<noteq> None \<and> default_value x = None)"
      by blast
    with IH(1,4) pb t False pe show ?thesis by simp
  qed
qed

lemma parse_form_entries_shape:
  assumes "parse_form_entries v r = (out, Inr (Some es))"
  shows "\<exists>fields mode collect.
           parse_entries r (question_entries v) [] 0 []
             = (out, Inr (length (filter is_page_break (question_entries v)), fields)) \<and>
           email_mode v = Inr mode \<and> gt_int mode 1 = Inr collect \<and>
           es = fields @ (if collect then [email_entry] else [])
                  @ (if length (filter is_page_break (question_entries v)) > 0
                     then [page_history_entry (length (filter is_page_break (question_entries v)))]
                     else [])"
proof -
  from assms have tv: "truthy v"
    by (auto simp: parse_form_entries_def split: if_splits)
  from assms tv obtain v1 where v1: "py_index v 1 = Inr v1"
    by (cases "py_index v 1") (simp_all add: parse_form_entries_def)
  from assms tv v1 have tv1: "truthy v1"
    by (auto simp: parse_form_entries_def split: if_splits)
  from assms tv v1 tv1 obtain v11 where v11: "py_index v1 1 = Inr v11"
    by (cases "py_index v1 1") (simp_all add: parse_form_entries_def)
  from assms tv v1 tv1 v11 have tv11: "truthy v11"
    by (auto simp: parse_form_entries_def split: if_splits)
  from assms tv v1 tv1 v11 tv11 obtain entries where en: "py_iter v11 = Inr entries"
    by (cases "py_iter v11") (simp_all add: parse_form_entries_def)
  have q: "question_entries v = entries"
    using v1 v11 en by (simp add: question_entries_def)
  note facts = tv v1 tv1 v11 tv11 en
  obtain out1 r1 where pe: "parse_entries r entries [] 0 [] = (out1, r1)"
    by (cases "parse_entries r entries [] 0 []")
  from assms facts pe obtain pc fields where r1: "r1 = Inr (pc, fields)"
    by (cases r1) (auto simp: parse_form_entries_def)
  from assms facts pe r1 obtain v110 where v110: "py_index v1 10 = Inr v110"
    by (cases "py_index v1 10") (simp_all add: parse_form_entries_def)
  from assms facts pe r1 v110 obtain mode where mode: "py_index v110 6 = Inr mode"
    by (cases "py_index v110 6") (simp_all add: parse_form_entries_def)
  from assms facts pe r1 v110 mode obtain collect where c: "gt_int mode 1 = Inr collect"
    by (cases "gt_int mode 1") (simp_all add: parse_form_entries_def)
  from assms facts pe r1 v110 mode c have
    res: "out = out1" "es = fields @ (if collect then [email_entry] else [])
                  @ (if pc > 0 then [page_history_entry pc] else [])"
    by (simp_all add: parse_form_entries_def)
  from parse_entries_shape [OF pe [unfolded r1]] have
    pc: "pc = length (filter is_page_break entries)" by simp
  have em: "email_mode v = Inr mode"
    using v1 v110 mode by (simp add: email_mode_def)
  from pe r1 res pc q em c show ?thesis by auto
qed

lemma pseudo_fields_distinct:
  "\<not> is_page_history email_entry" "\<not> is_email_field (page_history_entry n)"
  "is_email_field email_entry" "is_page_history (page_history_entry n)"
  by (simp_all add: is_page_history_def is_email_field_def email_entry_def
      page_history_entry_def)

text \<open>
  C5. When the normalizer returns a list, the descriptors of the questions are those
  that the dump without its page-break entries yields (a page break contributes none);
  with \<open>N > 0\<close> page breaks the list holds exactly one page-history pseudo-field, whose
  default is the comma-joined numbers 0 to \<open>N\<close>, and with \<open>N = 0\<close> it holds none.
\<close>

theorem page_history_field:
  assumes run: "parse_form_entries v r = (out, Inr (Some es))"
  shows "\<exists>fields pseudo.
           es = fields @ pseudo \<and>
           (\<forall>n. parse_entries r (filter (\<lambda>e. \<not> is_page_break e) (question_entries v)) [] n []
                  = (out, Inr (n, fields))) \<and>
           (\<forall>f \<in> set fields. \<not> is_page_history f) \<and>
           filter is_page_history es
             = (if page_breaks v > 0 then [page_history_entry (page_breaks v)] else []) \<and>
           default_value (page_history_entry (page_breaks v))
             = Some (PStr (join (str '','') (map str_nat [0..<page_breaks v + 1])))"
proof -
  from parse_form_entries_shape [OF run] obtain fields collect where
    pe: "parse_entries r (question_entries v) [] 0 [] = (out, Inr (page_breaks v, fields))"
    and es: "es = fields @ (if collect then [email_entry] else [])
                  @ (if page_breaks v > 0 then [page_history_entry (page_breaks v)] else [])"
    unfolding page_breaks_def by blast
  from parse_entries_shape [OF pe] have
    nm: "\<forall>f \<in> set fields. name_e f \<noteq> None" and
    flt: "\<forall>n. parse_entries r (filter (\<lambda>e. \<not> is_page_break e) (question_entries v)) [] n []
           = (out, Inr (n, fields))"
    by auto
  from nm have nf: "\<forall>f \<in> set fields. \<not> is_page_history f"
    by (simp add: is_page_history_def)
  then have f0: "filter is_page_history fields = []" by (simp add: filter_empty_conv)
  have f1: "filter is_page_history es
      = (if page_breaks v > 0 then [page_history_entry (page_breaks v)] else [])"
    by (simp add: es f0 pseudo_fields_distinct)
  have d: "default_value (page_history_entry (page_breaks v))
      = Some (PStr (join (str '','') (map str_nat [0..<page_breaks v + 1])))"
    by (simp add: page_history_entry_def)
  from es flt nf f1 d show ?thesis by blast
qed

text \<open>
  C6. When the normalizer returns a list and the mode flag is the integer \<open>m\<close>, the
  list holds the email pseudo-field (id \<open>emailAddress\<close>, required) exactly once if
  \<open>m > 1\<close> and not at all otherwise; for the modes 1, 2 and 3 of the docstring this is:
  exactly once if and only if the mode is not 1.
\<close>

theorem email_field:
  assumes run: "parse_form_entries v r = (out, Inr (Some es))"
    and mode: "email_mode v = Inr (PInt m)"
  shows "(\<exists>fields pages. es = fields @ (if m > 1 then [email_entry] else []) @ pages \<and>
            (\<forall>f \<in> set fields. \<not> is_email_field f) \<and>
            (\<forall>f \<in> set pages. \<not> is_email_field f)) \<and>
         filter is_email_field es = (if m > 1 then [email_entry] else []) \<and>
         (m \<in> {1, 2, 3} \<longrightarrow> (length (filter is_email_field es) = 1 \<longleftrightarrow> m \<noteq> 1)) \<and>
         id_e email_entry = PStr (str ''emailAddress'') \<and> required email_entry"
proof -
  from parse_form_entries_shape [OF run] mode obtain fields collect where
    pe: "parse_entries r (question_entries v) [] 0 [] = (out, Inr (page_breaks v, fields))"
    and c: "gt_int (PInt m) 1 = Inr collect"
    and es: "es = fields @ (if collect then [email_entry] else [])
                  @ (if page_breaks v > 0 then [page_history_entry (page_breaks v)] else [])"
    unfolding page_breaks_def by auto
  from c have collect: "collect = (m > 1)" by auto
  let ?pages = "if page_breaks v > 0 then [page_history_entry (page_breaks v)] else []"
  from parse_entries_shape [OF pe] have nm: "\<forall>f \<in> set fields. name_e f \<noteq> None" by auto
  then have nf: "\<forall>f \<in> set fields. \<not> is_email_field f" by (simp add: is_email_field_def)
  have np: "\<forall>f \<in> set ?pages. \<not> is_email_field f" by (simp add: pseudo_fields_distinct)
  have es': "es = fields @ (if m > 1 then [email_entry] else []) @ ?pages"
    using es collect by simp
  from nf have f0: "filter is_email_field fields = []" by (simp add: filter_empty_conv)
  have f1: "filter is_email_field es = (if m > 1 then [email_entry] else [])"
    by (simp add: es' f0 pseudo_fields_distinct)
  have iff: "m \<in> {1, 2, 3} \<longrightarrow> (length (filter is_email_field es) = 1 \<longleftrightarrow> m \<noteq> 1)"
    by (auto simp: f1)
  have e: "id_e email_entry = PStr (str ''emailAddress'')" "required email_entry"
    by (simp_all add: email_entry_def)
  from es' nf np f1 iff e show ?thesis by blast
qed

lemmas parse_eval = parse_form_entries_def parse_entry_def sub_entry_info_def py_join_def
  FORM_SESSION_TYPE_ID_def ANY_TEXT_FIELD_def

lemmas dump_defs = form_dump_def text_question_def choice_question_def page_break_def
  note_question_def

lemma parse_two_pages:
  "parse_form_entries (form_dump [text_question, page_break, choice_question, page_break] m) r
   = (case gt_int m 1 of Inl e \<Rightarrow> ([], Inl e)
      | Inr c \<Rightarrow> ([], Inr (Some ((if r then [name_field] else [name_field, pick_field])
                   @ (if c then [email_entry] else []) @ [page_history_entry 2]))))"
  by (simp add: parse_eval dump_defs name_field_def pick_field_def numeral_2_eq_2
      split: sum.splits)

lemma page_breaks_two:
  "page_breaks (form_dump [text_question, page_break, choice_question, page_break] m) = 2"
  by (simp add: page_breaks_def question_entries_def is_page_break_def dump_defs
      FORM_SESSION_TYPE_ID_def)

text \<open>Two page breaks: one page-history pseudo-field with the default \<open>0,1,2\<close>.\<close>

theorem page_history_field_witness:
  "parse_form_entries
     (form_dump [text_question, page_break, choice_question, page_break] (PInt 1)) False
   = ([], Inr (Some [name_field, pick_field, page_history_entry 2])) \<and>
   filter is_page_history [name_field, pick_field, page_history_entry 2]
     = [page_history_entry 2] \<and>
   default_value (page_history_entry 2) = Some (PStr (str ''0,1,2''))"
proof -
  let ?v = "form_dump [text_question, page_break, choice_question, page_break] (PInt 1)"
  have run: "parse_form_entries ?v False
      = ([], Inr (Some [name_field, pick_field, page_history_entry 2]))"
    by (simp add: parse_two_pages)
  from page_history_field [OF run] have
    "filter is_page_history [name_field, pick_field, page_history_entry 2]
       = (if page_breaks ?v > 0 then [page_history_entry (page_breaks ?v)] else [])"
    by blast
  then have "filter is_page_history [name_field, pick_field, page_history_entry 2]
       = [page_history_entry 2]"
    by (simp only: page_breaks_two zero_less_numeral if_True)
  with run page_history_default_2 show ?thesis by (simp only: simp_thms)
qed

lemma email_mode_dump: "email_mode (form_dump qs m) = Inr m"
  by (simp add: email_mode_def form_dump_def)

text \<open>Mode 3 yields one email pseudo-field, mode 1 none.\<close>

theorem email_field_witness:
  "parse_form_entries
     (form_dump [text_question, page_break, choice_question, page_break] (PInt 3)) False
   = ([], Inr (Some [name_field, pick_field, email_entry, page_history_entry 2])) \<and>
   filter is_email_field [name_field, pick_field, email_entry, page_history_entry 2]
     = [email_entry] \<and>
   parse_form_entries
     (form_dump [text_question, page_break, choice_question, page_break] (PInt 1)) False
   = ([], Inr (Some [name_field, pick_field, page_history_entry 2])) \<and>
   filter is_email_field [name_field, pick_field, page_history_entry 2] = []"
proof -
  let ?qs = "[text_question, page_break, choice_question, page_break]"
  have run3: "parse_form_entries (form_dump ?qs (PInt 3)) False
      = ([], Inr (Some [name_field, pick_field, email_entry, page_history_entry 2]))"
    by (simp add: parse_two_pages)
  have run1: "parse_form_entries (form_dump ?qs (PInt 1)) False
      = ([], Inr (Some [name_field, pick_field, page_history_entry 2]))"
    by (simp add: parse_two_pages)
  from email_field [OF run3 email_mode_dump] have
    "filter is_email_field [name_field, pick_field, email_entry, page_history_entry 2]
       = (if (3::int) > 1 then [email_entry] else [])" by blast
  then have f3:
    "filter is_email_field [name_field, pick_field, email_entry, page_history_entry 2]
       = [email_entry]" by simp
  from email_field [OF run1 email_mode_dump] have
    "filter is_email_field [name_field, pick_field, page_history_entry 2]
       = (if (1::int) > 1 then [email_entry] else [])" by blast
  then have f1: "filter is_email_field [name_field, pick_field, page_history_entry 2] = []"
    by (simp only: less_irrefl if_False)
  from run3 f3 run1 f1 show ?thesis by (simp only: simp_thms)
qed

lemma parse_form_entries_guard:
  "parse_form_entries PNone r = ([CantGetFormEntries], Inr None)"
  "parse_form_entries (PList []) r = ([CantGetFormEntries], Inr None)"
  "parse_form_entries (PList [x, PNone]) r = ([CantGetFormEntries], Inr None)"
  "parse_form_entries (PList [x, PList [y, PNone]]) r = ([CantGetFormEntries], Inr None)"
  "parse_form_entries (PList [x, PList [y, PList []]]) r = ([CantGetFormEntries], Inr None)"
  by (simp_all add: parse_form_entries_def)

text \<open>
  C7. A dump without the question array should make the normalizer return \<open>None\<close> with
  its error message. The guard \<open>not v or not v[1] or not v[1][1]\<close> does so when the
  positions hold null or an empty value (\<open>parse_form_entries_guard\<close>), but it indexes
  before it tests: a dump too short to have position 1, or whose \<open>v[1]\<close> is too short or
  not an array, raises \<open>IndexError\<close> or \<open>TypeError\<close>, and nothing is printed.
\<close>

theorem short_dump_raises:
  "parse_form_entries (PList [PNone]) r = ([], Inl IndexError) \<and>
   parse_form_entries (PList [PNone, PList [PNone]]) r = ([], Inl IndexError) \<and>
   parse_form_entries (PList [PNone, PInt 5]) r = ([], Inl TypeError)"
  by (simp add: parse_form_entries_def)

lemma parse_entries_out:
  "parse_entries r es out pc acc
   = (out @ fst (parse_entries r es [] pc acc), snd (parse_entries r es [] pc acc))"
proof (induction es arbitrary: out pc acc)
  case Nil
  show ?case by simp
next
  case (Cons e es)
  show ?case
  proof (cases "py_index e 3")
    case (Inl x)
    then show ?thesis by simp
  next
    case (Inr t)
    show ?thesis
    proof (cases "eq_int t FORM_SESSION_TYPE_ID")
      case True
      with Inr Cons.IH [of out "pc + 1" acc] show ?thesis by simp
    next
      case False
      show ?thesis
      proof (cases "parse_entry r e")
        case (Inl x)
        with Inr False show ?thesis by simp
      next
        case pe: (Inr p)
        obtain w f where p: "p = (w, f)" by (cases p)
        from Cons.IH [of "out @ w" pc "acc @ f"] Cons.IH [of w pc "acc @ f"]
        show ?thesis using Inr False pe p by simp
      qed
    qed
  qed
qed

lemma parse_entries_append:
  "parse_entries r (xs @ ys) out pc acc
   = (case parse_entries r xs out pc acc of
        (o1, Inl e) \<Rightarrow> (o1, Inl e)
      | (o1, Inr (pc1, acc1)) \<Rightarrow> parse_entries r ys o1 pc1 acc1)"
proof (induction xs arbitrary: out pc acc)
  case Nil
  show ?case by simp
next
  case (Cons x xs)
  show ?case
    by (simp add: Cons.IH split: sum.splits prod.splits)
qed

lemma snd_parse_entries_out:
  "snd (parse_entries r es out pc acc) = snd (parse_entries r es out' pc acc)"
  using parse_entries_out [of r es out pc acc] parse_entries_out [of r es out' pc acc]
  by simp

text \<open>
  What the code does for an entry that is not a page break and whose position 4 holds
  something other than an array: \<open>parse_entry\<close> prints the warning and returns no
  descriptor without raising; the loop goes on with the remaining entries, its state
  unchanged but for the warning; the value returned (or the exception raised) for a
  question array is the one for the array without that entry.
\<close>

theorem malformed_variants_skipped:
  assumes e4: "py_index entry 4 = Inr e4"
    and nl: "\<forall>subs. e4 \<noteq> PList subs"
    and nb: "\<not> is_page_break entry"
  shows "parse_entry r entry = Inr ([NotIterable entry], []) \<and>
         (\<forall>rest out pc acc.
            parse_entries r (entry # rest) out pc acc
              = parse_entries r rest (out @ [NotIterable entry]) pc acc) \<and>
         (\<forall>pre rest out pc acc.
            snd (parse_entries r (pre @ entry # rest) out pc acc)
              = snd (parse_entries r (pre @ rest) out pc acc)) \<and>
         (\<forall>a b cs ds pre rest. pre @ rest \<noteq> [] \<longrightarrow>
            snd (parse_form_entries (with_questions a b cs ds (pre @ entry # rest)) r)
              = snd (parse_form_entries (with_questions a b cs ds (pre @ rest)) r))"
proof -
  from e4 obtain en et where i: "py_index entry 1 = Inr en" "py_index entry 3 = Inr et"
    by (cases entry) (auto split: if_splits)
  from nb i have ne: "\<not> eq_int et FORM_SESSION_TYPE_ID" by (simp add: is_page_break_def)
  have pe: "parse_entry r entry = Inr ([NotIterable entry], [])"
    using i e4 nl by (cases e4) (simp_all add: parse_entry_def)
  have step: "\<forall>rest out pc acc.
      parse_entries r (entry # rest) out pc acc
        = parse_entries r rest (out @ [NotIterable entry]) pc acc"
    using i ne pe by simp
  have ctx: "\<forall>pre rest out pc acc.
      snd (parse_entries r (pre @ entry # rest) out pc acc)
        = snd (parse_entries r (pre @ rest) out pc acc)"
  proof (intro allI)
    fix pre rest :: "pyval list" and out :: "msg list" and pc :: nat and acc :: "entry list"
    obtain o1 r1 where p: "parse_entries r pre out pc acc = (o1, r1)"
      by (cases "parse_entries r pre out pc acc")
    show "snd (parse_entries r (pre @ entry # rest) out pc acc)
        = snd (parse_entries r (pre @ rest) out pc acc)"
    proof (cases r1)
      case (Inl x)
      with p show ?thesis by (simp add: parse_entries_append del: parse_entries.simps)
    next
      case (Inr q)
      obtain pc1 acc1 where q: "q = (pc1, acc1)" by (cases q)
      have "snd (parse_entries r (pre @ entry # rest) out pc acc)
          = snd (parse_entries r (entry # rest) o1 pc1 acc1)"
        using p Inr q by (simp add: parse_entries_append del: parse_entries.simps)
      also have "\<dots> = snd (parse_entries r rest (o1 @ [NotIterable entry]) pc1 acc1)"
        using step by (simp del: parse_entries.simps)
      also have "\<dots> = snd (parse_entries r rest o1 pc1 acc1)"
        by (rule snd_parse_entries_out)
      also have "\<dots> = snd (parse_entries r (pre @ rest) out pc acc)"
        using p Inr q by (simp add: parse_entries_append del: parse_entries.simps)
      finally show ?thesis .
    qed
  qed
  have whole: "\<forall>a b cs ds pre rest. pre @ rest \<noteq> [] \<longrightarrow>
      snd (parse_form_entries (with_questions a b cs ds (pre @ entry # rest)) r)
        = snd (parse_form_entries (with_questions a b cs ds (pre @ rest)) r)"
  proof (intro allI impI)
    fix a b :: pyval and cs ds pre rest :: "pyval list"
    assume nz: "pre @ rest \<noteq> []"
    from ctx have eq: "snd (parse_entries r (pre @ entry # rest) [] 0 [])
        = snd (parse_entries r (pre @ rest) [] 0 [])" by blast
    obtain o1 r1 where p1: "parse_entries r (pre @ entry # rest) [] 0 [] = (o1, r1)"
      by (cases "parse_entries r (pre @ entry # rest) [] 0 []")
    obtain o2 r2 where p2: "parse_entries r (pre @ rest) [] 0 [] = (o2, r2)"
      by (cases "parse_entries r (pre @ rest) [] 0 []")
    from eq p1 p2 have r: "r1 = r2" by simp
    have t: "truthy (PList (pre @ rest))" "truthy (PList (pre @ entry # rest))"
      using nz by simp_all
    show "snd (parse_form_entries (with_questions a b cs ds (pre @ entry # rest)) r)
        = snd (parse_form_entries (with_questions a b cs ds (pre @ rest)) r)"
      using p1 p2 r t
      by (simp add: parse_form_entries_def with_questions_def split: sum.splits prod.splits)
  qed
  from pe step ctx whole show ?thesis by blast
qed

text \<open>A text item whose \<open>entry[4]\<close> is null, between two questions.\<close>

theorem malformed_variants_skipped_witness:
  "parse_form_entries (form_dump [text_question, note_question, choice_question] (PInt 1)) False
   = ([NotIterable note_question], Inr (Some [name_field, pick_field])) \<and>
   parse_form_entries (form_dump [text_question, choice_question] (PInt 1)) False
   = ([], Inr (Some [name_field, pick_field])) \<and>
   parse_entry False note_question = Inr ([NotIterable note_question], [])"
proof -
  have 1: "py_index note_question 4 = Inr PNone" by (simp add: note_question_def)
  have 2: "\<forall>subs. PNone \<noteq> PList subs" by simp
  have 3: "\<not> is_page_break note_question"
    by (simp add: is_page_break_def note_question_def FORM_SESSION_TYPE_ID_def)
  have r1: "parse_form_entries
      (form_dump [text_question, note_question, choice_question] (PInt 1)) False
      = ([NotIterable note_question], Inr (Some [name_field, pick_field]))"
    by (simp add: parse_eval dump_defs name_field_def pick_field_def)
  have r2: "parse_form_entries (form_dump [text_question, choice_question] (PInt 1)) False
      = ([], Inr (Some [name_field, pick_field]))"
    by (simp add: parse_eval dump_defs name_field_def pick_field_def)
  from malformed_variants_skipped [OF 1 2 3, of False] r1 r2 show ?thesis by blast
qed

text \<open>
  C9. An entry whose variant list is not a well-formed array should be skipped with a
  warning, without an error. The test \<open>isinstance(entry[4], list)\<close> does so when the
  position 4 holds a value that is not an array (\<open>malformed_variants_skipped\<close>), but it
  indexes before it tests, and the loop over the variants indexes each of them without
  a test: an entry without the position 4 raises \<open>IndexError\<close>, an entry whose variant
  list is \<open>[null]\<close> raises \<open>TypeError\<close>, and the normalizer returns nothing for the
  whole dump.
\<close>

theorem malformed_variants_raise:
  "parse_entry r short_item = Inl IndexError \<and>
   parse_form_entries (form_dump [text_question, short_item, choice_question] (PInt 1)) r
     = ([], Inl IndexError) \<and>
   parse_entry r null_variant_item = Inl TypeError \<and>
   parse_form_entries (form_dump [text_question, null_variant_item, choice_question] (PInt 1)) r
     = ([], Inl TypeError)"
  by (simp add: parse_eval dump_defs short_item_def null_variant_item_def)

section \<open>Properties of the extractor\<close>

lemma strip_prefix_Some: "strip_prefix p s = Some t \<longleftrightarrow> s = p @ t"
  by (induction p s rule: strip_prefix.induct) auto

lemma has_close_alt: "has_close t \<longleftrightarrow> (\<exists>a b. t = a @ 93 # 59 # b)"
  by (simp add: has_close_def)

lemma has_close_Nil [simp]: "\<not> has_close []"
  by (simp add: has_close_alt)

lemma has_close_single [simp]: "\<not> has_close [c]"
  by (simp add: has_close_alt append_eq_Cons_conv)

lemma has_close_Cons [simp]:
  "has_close (c # d # cs) \<longleftrightarrow> (c = 93 \<and> d = 59) \<or> has_close (d # cs)"
proof
  assume "has_close (c # d # cs)"
  then obtain a b where ab: "c # d # cs = a @ 93 # 59 # b" unfolding has_close_alt by blast
  show "(c = 93 \<and> d = 59) \<or> has_close (d # cs)"
  proof (cases a)
    case Nil
    with ab show ?thesis by simp
  next
    case (Cons x a')
    with ab have "d # cs = a' @ 93 # 59 # b" by simp
    then have "has_close (d # cs)" unfolding has_close_alt by blast
    then show ?thesis ..
  qed
next
  assume "(c = 93 \<and> d = 59) \<or> has_close (d # cs)"
  then show "has_close (c # d # cs)"
  proof
    assume "c = 93 \<and> d = 59"
    then have "c # d # cs = [] @ 93 # 59 # cs" by simp
    then show ?thesis unfolding has_close_alt by blast
  next
    assume "has_close (d # cs)"
    then obtain a b where "d # cs = a @ 93 # 59 # b" unfolding has_close_alt by blast
    then have "c # d # cs = (c # a) @ 93 # 59 # b" by simp
    then show ?thesis unfolding has_close_alt by blast
  qed
qed


lemma until_close_Some:
  "until_close s = Some inner \<Longrightarrow>
   (\<exists>post. s = inner @ 93 # 59 # post) \<and> \<not> has_close (inner @ [93])"
proof (induction s arbitrary: inner rule: until_close.induct)
  case 1
  then show ?case by simp
next
  case (2 c)
  then show ?case by simp
next
  case (3 c d cs)
  show ?case
  proof (cases "c = 93 \<and> d = 59")
    case True
    with 3(2) have "inner = []" by simp
    with True show ?thesis by simp
  next
    case False
    with 3(2) obtain inner' where i: "until_close (d # cs) = Some inner'" "inner = c # inner'"
      by auto
    from 3(1) [OF False i(1)] obtain post where
      p: "d # cs = inner' @ 93 # 59 # post" and n: "\<not> has_close (inner' @ [93])" by blast
    have "\<not> has_close (c # inner' @ [93])"
    proof (cases inner')
      case Nil
      with p False show ?thesis by simp
    next
      case (Cons x xs)
      with p have "x = d" by simp
      with Cons n False show ?thesis by simp
    qed
    with i(2) p show ?thesis by simp
  qed
qed

lemma until_close_first:
  "\<not> has_close (inner @ [93]) \<Longrightarrow> until_close (inner @ 93 # 59 # post) = Some inner"
proof (induction inner)
  case Nil
  show ?case by simp
next
  case (Cons c inner)
  show ?case
  proof (cases inner)
    case Nil
    with Cons.prems have "c \<noteq> 93 \<or> (93::nat) \<noteq> 59" by simp
    with Nil show ?thesis by simp
  next
    case (Cons x xs)
    from Cons.prems Cons have n: "\<not> (c = 93 \<and> x = 59)" "\<not> has_close (inner @ [93])"
      by simp_all
    from Cons.IH [OF n(2)] Cons n(1) show ?thesis by simp
  qed
qed

lemma until_close_found: "until_close (inner @ 93 # 59 # post) \<noteq> None"
proof (induction inner)
  case Nil
  show ?case by simp
next
  case (Cons c inner)
  then obtain r where r: "until_close (inner @ 93 # 59 # post) = Some r" by auto
  obtain d ds where d: "inner @ 93 # 59 # post = d # ds" by (cases inner) auto
  show ?case using r d by simp
qed

lemma dropWhile_spaces:
  "\<forall>x \<in> set ws. is_space x \<Longrightarrow> \<not> is_space y \<Longrightarrow> dropWhile is_space (ws @ y # ys) = y # ys"
  by (induction ws) auto

lemma split_spaces: "\<exists>ws. xs = ws @ dropWhile is_space xs \<and> (\<forall>x \<in> set ws. is_space x)"
  by (rule exI [of _ "takeWhile is_space xs"]) (auto dest: set_takeWhileD)

lemma match_here_Some:
  assumes "match_here name s = Some g"
  shows "\<exists>c ws1 ws2 inner post.
           s = literal_at name c ws1 ws2 inner @ post \<and> is_space c \<and>
           (\<forall>x \<in> set ws1. is_space x) \<and> (\<forall>x \<in> set ws2. is_space x) \<and>
           \<not> has_close (inner @ str '']'') \<and> g = str ''['' @ inner @ str '']''"
proof -
  from assms obtain s1 where s1: "strip_prefix (str ''var'') s = Some s1"
    by (auto simp: match_here_def split: option.splits)
  from assms s1 obtain c s2 where s2: "s1 = c # s2" and c: "is_space c"
    by (auto simp: match_here_def split: option.splits list.splits if_splits)
  from assms s1 s2 c obtain s3 where s3: "strip_prefix name s2 = Some s3"
    by (auto simp: match_here_def split: option.splits)
  from assms s1 s2 c s3 obtain s4 where
    s4: "strip_prefix (str ''='') (dropWhile is_space s3) = Some s4"
    by (auto simp: match_here_def split: option.splits)
  from assms s1 s2 c s3 s4 obtain s5 where
    s5: "strip_prefix (str ''['') (dropWhile is_space s4) = Some s5"
    by (auto simp: match_here_def split: option.splits)
  from assms s1 s2 c s3 s4 s5 obtain inner where
    inner: "until_close s5 = Some inner" and g: "g = str ''['' @ inner @ str '']''"
    by (auto simp: match_here_def split: option.splits)
  from until_close_Some [OF inner] obtain post where
    post: "s5 = inner @ 93 # 59 # post" and first: "\<not> has_close (inner @ [93])"
    by blast
  from split_spaces [of s3] obtain ws1 where
    ws1: "s3 = ws1 @ dropWhile is_space s3" "\<forall>x \<in> set ws1. is_space x" by blast
  from split_spaces [of s4] obtain ws2 where
    ws2: "s4 = ws2 @ dropWhile is_space s4" "\<forall>x \<in> set ws2. is_space x" by blast
  from s1 have e1: "s = str ''var'' @ s1" by (simp only: strip_prefix_Some)
  from s3 have e3: "s2 = name @ s3" by (simp only: strip_prefix_Some)
  from s4 have e4: "dropWhile is_space s3 = str ''='' @ s4" by (simp only: strip_prefix_Some)
  from s5 have e5: "dropWhile is_space s4 = str ''['' @ s5" by (simp only: strip_prefix_Some)
  have "s = str ''var'' @ c # name @ s3" using e1 s2 e3 by simp
  also have "s3 = ws1 @ str ''='' @ s4" using ws1(1) e4 by simp
  also have "s4 = ws2 @ str ''['' @ s5" using ws2(1) e5 by simp
  finally have "s = literal_at name c ws1 ws2 inner @ post"
    using post by (simp add: literal_at_def)
  moreover have "\<not> has_close (inner @ str '']'')" using first by simp
  ultimately show ?thesis using c ws1(2) ws2(2) g by blast
qed

lemma match_here_literal:
  assumes "is_space c" "\<forall>x \<in> set ws1. is_space x" "\<forall>x \<in> set ws2. is_space x"
  shows "match_here name (literal_at name c ws1 ws2 inner @ post)
         = map_option (\<lambda>t. str ''['' @ t @ str '']'') (until_close (inner @ 93 # 59 # post))"
proof -
  have sp: "\<not> is_space 61" "\<not> is_space 91" by (simp_all add: is_space_def)
  have 1: "strip_prefix (str ''var'') (literal_at name c ws1 ws2 inner @ post)
      = Some ([c] @ name @ ws1 @ str ''='' @ ws2 @ str ''['' @ inner @ [93, 59] @ post)"
    by (simp add: strip_prefix_Some literal_at_def)
  have 2: "strip_prefix name (name @ ws1 @ str ''='' @ ws2 @ str ''['' @ inner @ [93, 59] @ post)
      = Some (ws1 @ str ''='' @ ws2 @ str ''['' @ inner @ [93, 59] @ post)"
    by (simp add: strip_prefix_Some)
  have 3: "dropWhile is_space (ws1 @ str ''='' @ ws2 @ str ''['' @ inner @ [93, 59] @ post)
      = str ''='' @ ws2 @ str ''['' @ inner @ [93, 59] @ post"
    using dropWhile_spaces [OF assms(2) sp(1)] by simp
  have 4: "dropWhile is_space (ws2 @ str ''['' @ inner @ [93, 59] @ post)
      = str ''['' @ inner @ [93, 59] @ post"
    using dropWhile_spaces [OF assms(3) sp(2)] by simp
  show ?thesis
    using assms(1) 1 2 3 4 by (simp add: match_here_def split: option.splits)
qed

lemma match_here_None_iff: "match_here name s = None \<longleftrightarrow> \<not> starts_literal name s"
proof
  assume n: "match_here name s = None"
  show "\<not> starts_literal name s"
  proof
    assume "starts_literal name s"
    then obtain c ws1 ws2 inner post where
      h: "s = literal_at name c ws1 ws2 inner @ post" "is_space c"
        "\<forall>x \<in> set ws1. is_space x" "\<forall>x \<in> set ws2. is_space x"
      unfolding starts_literal_def by blast
    from match_here_literal [OF h(2,3,4), of name inner post] until_close_found [of inner post]
      h(1) n show False by simp
  qed
next
  assume ns: "\<not> starts_literal name s"
  show "match_here name s = None"
  proof (rule ccontr)
    assume "match_here name s \<noteq> None"
    then obtain g where "match_here name s = Some g" by auto
    from match_here_Some [OF this] have "starts_literal name s"
      unfolding starts_literal_def by blast
    with ns show False by simp
  qed
qed

lemma search_Some:
  "search name html = Some g \<Longrightarrow>
   \<exists>pre rest. html = pre @ rest \<and> match_here name rest = Some g \<and>
     (\<forall>p r. pre = p @ r \<and> r \<noteq> [] \<longrightarrow> match_here name (r @ rest) = None)"
proof (induction html)
  case Nil
  show ?case
  proof (intro exI conjI)
    show "[] = [] @ []" by simp
    show "match_here name [] = Some g" using Nil by simp
    show "\<forall>p r. [] = p @ r \<and> r \<noteq> [] \<longrightarrow> match_here name (r @ []) = None"
      by simp
  qed
next
  case (Cons c cs)
  show ?case
  proof (cases "match_here name (c # cs)")
    case None
    with Cons.prems have "search name cs = Some g" by simp
    from Cons.IH [OF this] obtain pre rest where
      pr: "cs = pre @ rest" "match_here name rest = Some g"
        "\<forall>p r. pre = p @ r \<and> r \<noteq> [] \<longrightarrow> match_here name (r @ rest) = None"
      by blast
    have "\<forall>p r. c # pre = p @ r \<and> r \<noteq> [] \<longrightarrow> match_here name (r @ rest) = None"
    proof (intro allI impI)
      fix p r assume a: "c # pre = p @ r \<and> r \<noteq> []"
      show "match_here name (r @ rest) = None"
      proof (cases p)
        case Nil
        with a have "r = c # pre" by simp
        with pr(1) None show ?thesis by simp
      next
        case (Cons x p')
        with a have "pre = p' @ r \<and> r \<noteq> []" by simp
        with pr(3) show ?thesis by blast
      qed
    qed
    then have l: "\<forall>p r. c # pre = p @ r \<and> r \<noteq> [] \<longrightarrow> match_here name (r @ rest) = None" .
    show ?thesis
    proof (intro exI conjI)
      show "c # cs = (c # pre) @ rest" using pr(1) by simp
      show "match_here name rest = Some g" by (rule pr(2))
      show "\<forall>p r. c # pre = p @ r \<and> r \<noteq> [] \<longrightarrow> match_here name (r @ rest) = None"
        by (rule l)
    qed
  next
    case (Some a)
    show ?thesis
    proof (intro exI conjI)
      show "c # cs = [] @ (c # cs)" by simp
      show "match_here name (c # cs) = Some g" using Some Cons.prems by simp
      show "\<forall>p r. [] = p @ r \<and> r \<noteq> [] \<longrightarrow> match_here name (r @ (c # cs)) = None"
        by simp
    qed
  qed
qed

lemma search_leftmost:
  assumes "match_here name rest = Some g"
    and "\<forall>p r. pre = p @ r \<and> r \<noteq> [] \<longrightarrow> match_here name (r @ rest) = None"
  shows "search name (pre @ rest) = Some g"
  using assms(2)
proof (induction pre)
  case Nil
  from assms(1) show ?case by (cases rest) simp_all
next
  case (Cons c pre)
  from Cons.prems have "match_here name ((c # pre) @ rest) = None" by blast
  moreover have "\<forall>p r. pre = p @ r \<and> r \<noteq> [] \<longrightarrow> match_here name (r @ rest) = None"
  proof (intro allI impI)
    fix p r assume "pre = p @ r \<and> r \<noteq> []"
    then have "c # pre = (c # p) @ r \<and> r \<noteq> []" by simp
    with Cons.prems show "match_here name (r @ rest) = None" by blast
  qed
  ultimately show ?case using Cons.IH by simp
qed

lemma search_None_iff: "search name html = None \<longleftrightarrow> \<not> has_literal name html"
proof
  assume n: "search name html = None"
  show "\<not> has_literal name html"
  proof
    assume "has_literal name html"
    then obtain pre rest where h: "html = pre @ rest" "starts_literal name rest"
      unfolding has_literal_def by blast
    from h(2) have m: "match_here name rest \<noteq> None" by (simp add: match_here_None_iff)
    have "search name (pre @ rest) \<noteq> None"
    proof (induction pre)
      case Nil
      from m show ?case by (cases rest) auto
    next
      case (Cons c pre)
      then show ?case by (auto split: option.splits)
    qed
    with h(1) n show False by simp
  qed
next
  assume nh: "\<not> has_literal name html"
  show "search name html = None"
  proof (rule ccontr)
    assume "search name html \<noteq> None"
    then obtain g where "search name html = Some g" by auto
    from search_Some [OF this] obtain pre rest where
      pr: "html = pre @ rest" "match_here name rest = Some g" by blast
    from pr(2) have "starts_literal name rest"
      using match_here_None_iff [of name rest] by simp
    with pr(1) have "has_literal name html" unfolding has_literal_def by blast
    with nh show False by simp
  qed
qed

lemma first_literal_search:
  assumes "first_literal name html inner"
  shows "search name html = Some (str ''['' @ inner @ str '']'')"
proof -
  from assms obtain pre c ws1 ws2 post where
    h: "html = pre @ literal_at name c ws1 ws2 inner @ post" "is_space c"
      "\<forall>x \<in> set ws1. is_space x" "\<forall>x \<in> set ws2. is_space x"
      "\<not> has_close (inner @ str '']'')"
      "\<forall>p r. pre = p @ r \<and> r \<noteq> [] \<longrightarrow>
         \<not> starts_literal name (r @ literal_at name c ws1 ws2 inner @ post)"
    unfolding first_literal_def by blast
  from h(5) have "until_close (inner @ 93 # 59 # post) = Some inner"
    by (intro until_close_first) simp
  with match_here_literal [OF h(2,3,4), of name inner post] have
    m: "match_here name (literal_at name c ws1 ws2 inner @ post)
        = Some (str ''['' @ inner @ str '']'')" by simp
  from h(6) have l: "\<forall>p r. pre = p @ r \<and> r \<noteq> [] \<longrightarrow>
      match_here name (r @ literal_at name c ws1 ws2 inner @ post) = None"
    by (simp add: match_here_None_iff)
  from search_leftmost [OF m l] h(1) show ?thesis by simp
qed

lemma search_first_literal:
  assumes "search name html = Some g"
  shows "\<exists>inner. first_literal name html inner \<and> g = str ''['' @ inner @ str '']''"
proof -
  from search_Some [OF assms] obtain pre rest where
    pr: "html = pre @ rest" "match_here name rest = Some g"
      "\<forall>p r. pre = p @ r \<and> r \<noteq> [] \<longrightarrow> match_here name (r @ rest) = None"
    by blast
  from match_here_Some [OF pr(2)] obtain c ws1 ws2 inner post where
    m: "rest = literal_at name c ws1 ws2 inner @ post" "is_space c"
      "\<forall>x \<in> set ws1. is_space x" "\<forall>x \<in> set ws2. is_space x"
      "\<not> has_close (inner @ str '']'')" "g = str ''['' @ inner @ str '']''"
    by blast
  from pr(3) have "\<forall>p r. pre = p @ r \<and> r \<noteq> [] \<longrightarrow> \<not> starts_literal name (r @ rest)"
    by (simp add: match_here_None_iff)
  with pr(1) m have "first_literal name html inner"
    unfolding first_literal_def
    by (intro exI [of _ pre] exI [of _ c] exI [of _ ws1] exI [of _ ws2] exI [of _ post]) simp
  with m(6) show ?thesis by blast
qed

text \<open>
  C8 (amended). If the page contains no array literal for the name, the extraction
  returns \<open>None\<close> and prints nothing. If it contains one, the pattern matches the
  leftmost literal and takes its text up to the first \<open>];\<close> after the \<open>[\<close>; when
  \<open>json.loads\<close> rejects that text with a \<open>JSONDecodeError\<close>, the extraction prints the
  decoding error and returns \<open>None\<close>, and when \<open>json.loads\<close> decodes it, the extraction
  returns the decoded value.
\<close>

theorem extract_script_variables_result:
  "(\<not> has_literal name html \<longrightarrow>
      extract_script_variables json_loads name html = ([], Inr PNone)) \<and>
   (has_literal name html \<longrightarrow> (\<exists>inner. first_literal name html inner)) \<and>
   (\<forall>inner. first_literal name html inner \<longrightarrow>
      search name html = Some (str ''['' @ inner @ str '']'') \<and>
      (json_loads (str ''['' @ inner @ str '']'') = Inl JSONDecodeError \<longrightarrow>
         extract_script_variables json_loads name html = ([ErrorDecodingJSON], Inr PNone)) \<and>
      (\<forall>v. json_loads (str ''['' @ inner @ str '']'') = Inr v \<longrightarrow>
         extract_script_variables json_loads name html = ([], Inr v)))"
proof (intro conjI impI allI)
  assume "\<not> has_literal name html"
  then have "search name html = None" by (simp add: search_None_iff)
  then show "extract_script_variables json_loads name html = ([], Inr PNone)"
    by (simp add: extract_script_variables_def)
next
  assume "has_literal name html"
  then have "search name html \<noteq> None" by (simp add: search_None_iff)
  then obtain g where "search name html = Some g" by auto
  from search_first_literal [OF this] show "\<exists>inner. first_literal name html inner" by blast
next
  fix inner assume "first_literal name html inner"
  then show "search name html = Some (str ''['' @ inner @ str '']'')"
    by (rule first_literal_search)
next
  fix inner
  assume f: "first_literal name html inner"
    and j: "json_loads (str ''['' @ inner @ str '']'') = Inl JSONDecodeError"
  from first_literal_search [OF f] j
  show "extract_script_variables json_loads name html = ([ErrorDecodingJSON], Inr PNone)"
    by (simp add: extract_script_variables_def)
next
  fix inner v
  assume f: "first_literal name html inner"
    and j: "json_loads (str ''['' @ inner @ str '']'') = Inr v"
  from first_literal_search [OF f] j
  show "extract_script_variables json_loads name html = ([], Inr v)"
    by (simp add: extract_script_variables_def)
qed

lemma search_Some_literal: "search name html = Some g \<Longrightarrow> has_literal name html"
  using search_None_iff [of name html] by simp

lemma search_None_literal: "search name html = None \<Longrightarrow> \<not> has_literal name html"
  using search_None_iff [of name html] by simp

lemmas search_eval = match_here_def is_space_def ALL_DATA_FIELDS_def

text \<open>A page with the literal, a page whose literal is not JSON, a page without it.\<close>

theorem extract_script_variables_result_witness:
  "extract_script_variables json_sample ALL_DATA_FIELDS
     (str ''<script>var FB_PUBLIC_LOAD_DATA_ = [null,[7]];</script>'')
   = ([], Inr (PList [PNone, PList [PInt 7]])) \<and>
   extract_script_variables json_sample ALL_DATA_FIELDS
     (str ''var FB_PUBLIC_LOAD_DATA_ = [nope];'')
   = ([ErrorDecodingJSON], Inr PNone) \<and>
   extract_script_variables json_sample ALL_DATA_FIELDS (str ''<html></html>'')
   = ([], Inr PNone)"
proof -
  let ?h1 = "str ''<script>var FB_PUBLIC_LOAD_DATA_ = [null,[7]];</script>''"
  let ?h2 = "str ''var FB_PUBLIC_LOAD_DATA_ = [nope];''"
  let ?h3 = "str ''<html></html>''"
  note thm1 = extract_script_variables_result [of ALL_DATA_FIELDS ?h1 json_sample]
  note thm2 = extract_script_variables_result [of ALL_DATA_FIELDS ?h2 json_sample]
  note thm3 = extract_script_variables_result [of ALL_DATA_FIELDS ?h3 json_sample]
  have s1: "search ALL_DATA_FIELDS ?h1 = Some (str ''[null,[7]]'')"
    by (simp add: search_eval)
  have s2: "search ALL_DATA_FIELDS ?h2 = Some (str ''[nope]'')"
    by (simp add: search_eval)
  have s3: "search ALL_DATA_FIELDS ?h3 = None"
    by (simp add: search_eval)
  have l1: "has_literal ALL_DATA_FIELDS ?h1" by (rule search_Some_literal [OF s1])
  have l2: "has_literal ALL_DATA_FIELDS ?h2" by (rule search_Some_literal [OF s2])
  have l3: "\<not> has_literal ALL_DATA_FIELDS ?h3" by (rule search_None_literal [OF s3])
  from thm1 l1 obtain i1 where i1: "first_literal ALL_DATA_FIELDS ?h1 i1" by blast
  with thm1 have "search ALL_DATA_FIELDS ?h1 = Some (str ''['' @ i1 @ str '']'')" by blast
  with s1 have e1: "str ''['' @ i1 @ str '']'' = str ''[null,[7]]''" by simp
  have "json_sample (str ''['' @ i1 @ str '']'') = Inr (PList [PNone, PList [PInt 7]])"
    unfolding e1 by (simp add: json_sample_def)
  with thm1 i1 have r1: "extract_script_variables json_sample ALL_DATA_FIELDS ?h1
      = ([], Inr (PList [PNone, PList [PInt 7]]))" by blast
  from thm2 l2 obtain i2 where i2: "first_literal ALL_DATA_FIELDS ?h2 i2" by blast
  with thm2 have "search ALL_DATA_FIELDS ?h2 = Some (str ''['' @ i2 @ str '']'')" by blast
  with s2 have e2: "str ''['' @ i2 @ str '']'' = str ''[nope]''" by simp
  have "json_sample (str ''['' @ i2 @ str '']'') = Inl JSONDecodeError"
    unfolding e2 by (simp add: json_sample_def)
  with thm2 i2 have r2: "extract_script_variables json_sample ALL_DATA_FIELDS ?h2
      = ([ErrorDecodingJSON], Inr PNone)" by blast
  from thm3 l3
  have r3: "extract_script_variables json_sample ALL_DATA_FIELDS ?h3 = ([], Inr PNone)"
    by blast
  from r1 r2 r3 show ?thesis by (simp only: simp_thms)
qed

text \<open>
  C8 as stated fails on the page \<open>var FB_PUBLIC_LOAD_DATA_ = [["];"]];\<close>: the literal,
  from \<open>var\<close> to the terminating \<open>];\<close>, is present and its array \<open>[["];"]]\<close> is valid
  JSON, but the lazy pattern stops at the \<open>];\<close> inside the string, \<open>json.loads\<close> rejects
  the text \<open>[["]\<close>, and the extraction returns \<open>None\<close>.
\<close>

theorem literal_with_close_in_string:
  "quoted_page
     = literal_at ALL_DATA_FIELDS 32 [32] [32] (str ''['' @ [34] @ str ''];'' @ [34] @ str '']'') \<and>
   json_sample (str ''['' @ (str ''['' @ [34] @ str ''];'' @ [34] @ str '']'') @ str '']'')
     = Inr (PList [PList [PStr (str ''];'')]]) \<and>
   search ALL_DATA_FIELDS quoted_page = Some (str ''[['' @ [34] @ str '']'') \<and>
   extract_script_variables json_sample ALL_DATA_FIELDS quoted_page
     = ([ErrorDecodingJSON], Inr PNone)"
  by (simp add: quoted_page_def literal_at_def json_sample_def extract_script_variables_def
      search_eval)

text \<open>
  An exception of \<open>json.loads\<close> other than \<open>JSONDecodeError\<close> is not caught.
\<close>

lemma extract_script_variables_uncaught:
  assumes "search name html = Some g" "json_loads g = Inl e" "e \<noteq> JSONDecodeError"
  shows "extract_script_variables json_loads name html = ([], Inl e)"
  using assms by (simp add: extract_script_variables_def)

lemma fetch_failure_absent:
  "status_code resp \<noteq> 200 \<Longrightarrow>
   get_fb_public_load_data json_loads resp = ([CantGetFormData (status_code resp)], Inr PNone)"
  by (simp add: get_fb_public_load_data_def)

end
